theory Spec2Isabelle
  imports Complex_Main
begin

section \<open>Data model\<close>

text \<open>
  The scene objects of the application (\<^verbatim>\<open>Scene\<close> in the type declarations): the fields
  are the ones the object literal of \<^verbatim>\<open>initializeProject\<close> writes, plus the optional
  \<^verbatim>\<open>imageUrl\<close> that \<^verbatim>\<open>generateVisuals\<close> adds. The field \<^verbatim>\<open>id\<close> is called
  \<open>scene_id\<close> here. JavaScript numbers are modelled as real numbers. The start times
  that the application computes are rounded to doubles as the program rounds them (see
  \<open>double\<close>); the quotient by zero, which the renderer can compute, is modelled as well
  (see \<open>jsnum\<close>).
\<close>

datatype status = Pending | Generating_image | Ready | Error

record Scene =
  scene_id :: nat
  prompt :: string
  script :: string
  status :: status
  startTime :: real
  imageUrl :: "string option"

text \<open>The decoded audio is opaque but for its duration.\<close>

record AudioBuffer =
  buffer_duration :: real

record ProjectData =
  scenes :: "Scene list"
  audioBuffer :: AudioBuffer
  duration :: real

section \<open>Array.prototype.reduce with an initial value\<close>

text \<open>
  \<^verbatim>\<open>xs.reduce((acc, x, idx) => f(acc, x, idx), init)\<close>: a left fold that hands the
  callback the position of each element.
\<close>

fun reduce_from :: "('b \<Rightarrow> 'a \<Rightarrow> nat \<Rightarrow> 'b) \<Rightarrow> 'b \<Rightarrow> nat \<Rightarrow> 'a list \<Rightarrow> 'b" where
  "reduce_from f acc idx [] = acc"
| "reduce_from f acc idx (x # xs) = reduce_from f (f acc x idx) (Suc idx) xs"

definition reduce :: "('b \<Rightarrow> 'a \<Rightarrow> nat \<Rightarrow> 'b) \<Rightarrow> 'b \<Rightarrow> 'a list \<Rightarrow> 'b" where
  "reduce f init xs = reduce_from f init 0 xs"

section \<open>The active scene\<close>

text \<open>
  Player.tsx, lines 36-38:
  \<^verbatim>\<open>scenes.reduce((bestIndex, scene, idx) =>
       (scene.startTime <= currentTime) ? idx : bestIndex, 0)\<close>
\<close>

definition Player_activeSceneIndex :: "Scene list \<Rightarrow> real \<Rightarrow> nat" where
  "Player_activeSceneIndex scs currentTime =
     reduce (\<lambda>bestIndex scene idx.
               if startTime scene \<le> currentTime then idx else bestIndex) 0 scs"

text \<open>
  videoRecorder.ts, lines 142-144, inside \<^verbatim>\<open>drawFrame\<close>:
  \<^verbatim>\<open>project.scenes.reduce((bestIndex, scene, idx) => {
       return (scene.startTime <= currentTime) ? idx : bestIndex; }, 0)\<close>
\<close>

definition drawFrame_activeSceneIndex :: "Scene list \<Rightarrow> real \<Rightarrow> nat" where
  "drawFrame_activeSceneIndex scs currentTime =
     reduce (\<lambda>bestIndex scene idx.
               (if startTime scene \<le> currentTime then idx else bestIndex)) 0 scs"

text \<open>
  The rule of the specification, in its words: \<open>r\<close> is the greatest position whose
  scene has started by \<open>time\<close>.
\<close>

definition greatest_qualifying :: "Scene list \<Rightarrow> real \<Rightarrow> nat \<Rightarrow> bool" where
  "greatest_qualifying scs time r \<longleftrightarrow>
     r < length scs \<and> startTime (scs ! r) \<le> time \<and>
     (\<forall>i<length scs. startTime (scs ! i) \<le> time \<longrightarrow> i \<le> r)"

text \<open>A scene as \<^verbatim>\<open>initializeProject\<close> creates it, used for concrete timelines.\<close>

definition pendingScene :: "nat \<Rightarrow> real \<Rightarrow> Scene" where
  "pendingScene n t =
     \<lparr>scene_id = n, prompt = ''p'', script = ''s'', status = Pending,
      startTime = t, imageUrl = None\<rparr>"

section \<open>Array.prototype.map and findIndex\<close>

text \<open>\<^verbatim>\<open>xs.map((x, idx) => f(x, idx))\<close>.\<close>

fun map_from :: "('a \<Rightarrow> nat \<Rightarrow> 'b) \<Rightarrow> nat \<Rightarrow> 'a list \<Rightarrow> 'b list" where
  "map_from f idx [] = []"
| "map_from f idx (x # xs) = f x idx # map_from f (Suc idx) xs"

definition array_map :: "('a \<Rightarrow> nat \<Rightarrow> 'b) \<Rightarrow> 'a list \<Rightarrow> 'b list" where
  "array_map f xs = map_from f 0 xs"

text \<open>
  \<^verbatim>\<open>xs.findIndex(P)\<close>: the first position whose element satisfies \<open>P\<close>; the
  source's \<^verbatim>\<open>-1\<close> is \<open>None\<close>.
\<close>

fun findIndex_from :: "('a \<Rightarrow> bool) \<Rightarrow> nat \<Rightarrow> 'a list \<Rightarrow> nat option" where
  "findIndex_from P idx [] = None"
| "findIndex_from P idx (x # xs) =
     (if P x then Some idx else findIndex_from P (Suc idx) xs)"

definition findIndex :: "('a \<Rightarrow> bool) \<Rightarrow> 'a list \<Rightarrow> nat option" where
  "findIndex P xs = findIndex_from P 0 xs"

section \<open>Rounded arithmetic\<close>

text \<open>
  A JavaScript number is an IEEE 754 double, and a product or a quotient is the exact
  result rounded to the nearest double, ties to the even significand. Where a property
  compares two numbers that the program computes in different ways, the rounding
  decides it, so the start times of the project creation and of the even redistribution
  below are rounded as the program rounds them. \<open>double\<close>
  is this rounding for results below the overflow threshold: the doubles around \<open>x\<close>
  are the multiples of two to the power \<open>ulp_exponent x\<close>, 52 below the binary
  exponent of \<open>x\<close> and never below -1074 (the subnormal numbers).
\<close>

definition roundTiesToEven :: "real \<Rightarrow> int" where
  "roundTiesToEven z =
     (let f = \<lfloor>z\<rfloor>; r = z - of_int f
      in if r < 1 / 2 then f
         else if r > 1 / 2 then f + 1
         else if even f then f else f + 1)"

definition ulp_exponent :: "real \<Rightarrow> int" where
  "ulp_exponent x = max \<lfloor>log 2 \<bar>x\<bar>\<rfloor> (- 1022) - 52"

definition double :: "real \<Rightarrow> real" where
  "double x =
     (if x = 0 then 0
      else of_int (roundTiesToEven (x / 2 powi ulp_exponent x)) * 2 powi ulp_exponent x)"

text \<open>The smallest positive double and the smallest positive normal double.\<close>

definition min_subnormal :: real where
  "min_subnormal = 2 powi (- 1074)"

definition min_normal :: real where
  "min_normal = 2 powi (- 1022)"

text \<open>\<^verbatim>\<open>a * b\<close> and \<^verbatim>\<open>a / b\<close> on doubles, the divisor not zero.\<close>

definition js_times :: "real \<Rightarrow> real \<Rightarrow> real" where
  "js_times a b = double (a * b)"

definition js_divide :: "real \<Rightarrow> real \<Rightarrow> real" where
  "js_divide a b = double (a / b)"

section \<open>Timeline edits of the application\<close>

text \<open>
  \<^verbatim>\<open>handleAutoAlign\<close> (lines 226-234). The React state \<^verbatim>\<open>project\<close> is passed in and
  the value given to \<^verbatim>\<open>setProject\<close> is returned; \<^verbatim>\<open>if (!project) return\<close> leaves
  the state \<open>None\<close>. The quotient and the products are rounded to doubles; no
  product exceeds the duration, so none overflows. With no scene the quotient, by zero,
  is not used.
\<close>

definition handleAutoAlign :: "ProjectData option \<Rightarrow> ProjectData option" where
  "handleAutoAlign proj =
     (case proj of
        None \<Rightarrow> None
      | Some p \<Rightarrow>
          (let interval = js_divide (duration p) (real (length (scenes p)));
               newScenes =
                 array_map (\<lambda>s idx. s\<lparr>startTime := js_times (real idx) interval\<rparr>)
                   (scenes p)
           in Some (p\<lparr>scenes := newScenes\<rparr>)))"

text \<open>
  \<^verbatim>\<open>handleRecordSync\<close> (lines 236-253), with the React state \<^verbatim>\<open>currentTime\<close> as
  an argument. Both reads of \<^verbatim>\<open>newScenes\<close> are in range, since \<^verbatim>\<open>findIndex\<close>
  returns a position of the array.
\<close>

definition handleRecordSync :: "ProjectData option \<Rightarrow> real \<Rightarrow> ProjectData option" where
  "handleRecordSync proj currentTime =
     (case proj of
        None \<Rightarrow> None
      | Some p \<Rightarrow>
          (case findIndex (\<lambda>s. startTime s > currentTime) (scenes p) of
             None \<Rightarrow> Some p
           | Some nextSceneIndex \<Rightarrow>
               (let newScenes = scenes p;
                    prevSceneTime =
                      (if nextSceneIndex > 0
                       then startTime (newScenes ! (nextSceneIndex - 1)) else 0)
                in if currentTime \<ge> prevSceneTime
                   then Some (p\<lparr>scenes :=
                          newScenes[nextSceneIndex :=
                            (newScenes ! nextSceneIndex)\<lparr>startTime := currentTime\<rparr>]\<rparr>)
                   else Some p)))"

section \<open>The frame of the offline renderer\<close>

text \<open>
  The quotient \<^verbatim>\<open>(currentTime - scene.startTime) / sceneDuration\<close> of two finite
  numbers is, in JavaScript, an infinity or NaN when the divisor is zero, where the
  division of HOL returns 0. The divisor is the difference of two finite numbers, so a
  zero divisor is \<^verbatim>\<open>+0\<close>.
\<close>

datatype jsnum = NaN | NegInf | Fin real | PosInf

definition js_div :: "real \<Rightarrow> real \<Rightarrow> jsnum" where
  "js_div a b =
     (if b \<noteq> 0 then Fin (a / b)
      else if a > 0 then PosInf
      else if a < 0 then NegInf
      else NaN)"

text \<open>\<^verbatim>\<open>Math.min(a, x)\<close> and \<^verbatim>\<open>Math.max(a, x)\<close> for a finite \<open>a\<close>.\<close>

fun Math_min :: "real \<Rightarrow> jsnum \<Rightarrow> jsnum" where
  "Math_min a NaN = NaN"
| "Math_min a NegInf = NegInf"
| "Math_min a (Fin x) = Fin (min a x)"
| "Math_min a PosInf = Fin a"

fun Math_max :: "real \<Rightarrow> jsnum \<Rightarrow> jsnum" where
  "Math_max a NaN = NaN"
| "Math_max a NegInf = Fin a"
| "Math_max a (Fin x) = Fin (max a x)"
| "Math_max a PosInf = PosInf"

text \<open>
  videoRecorder.ts, lines 145-153: the end of the active scene is the start of the scene
  after it in the array, or the duration; the progress is the clamped quotient.
\<close>

definition nextStartTime :: "Scene list \<Rightarrow> real \<Rightarrow> nat \<Rightarrow> real" where
  "nextStartTime scs dur activeSceneIndex =
     (if int activeSceneIndex < int (length scs) - 1
      then startTime (scs ! (activeSceneIndex + 1))
      else dur)"

definition sceneProgress :: "Scene list \<Rightarrow> real \<Rightarrow> nat \<Rightarrow> real \<Rightarrow> jsnum" where
  "sceneProgress scs dur activeSceneIndex currentTime =
     (let scene = scs ! activeSceneIndex;
          sceneDuration = nextStartTime scs dur activeSceneIndex - startTime scene
      in Math_max 0 (Math_min 1 (js_div (currentTime - startTime scene) sceneDuration)))"

text \<open>
  Lines 160-170: the Ken Burns zoom factor, from the position of the active scene and
  its progress.
\<close>

definition drawFrame_scale :: "nat \<Rightarrow> real \<Rightarrow> real" where
  "drawFrame_scale activeSceneIndex progress =
     (let isEven = (activeSceneIndex mod 2 = 0)
      in if isEven then 1 + (0.25 * progress) else 1.25 - (0.25 * progress))"

text \<open>
  One call of \<^verbatim>\<open>drawFrame\<close> (lines 127-153) at the time \<^verbatim>\<open>currentTime\<close>: the
  recording stops once the time has reached the duration; with no scene at all
  \<^verbatim>\<open>project.scenes[0]\<close> is \<^verbatim>\<open>undefined\<close> and reading its \<^verbatim>\<open>startTime\<close> throws;
  otherwise the frame shows the active scene at its progress.
\<close>

datatype frame = Stopped | Throws | Drawn nat jsnum

definition drawFrame :: "Scene list \<Rightarrow> real \<Rightarrow> real \<Rightarrow> frame" where
  "drawFrame scs dur currentTime =
     (if currentTime \<ge> dur then Stopped
      else
        (let activeSceneIndex = drawFrame_activeSceneIndex scs currentTime
         in if activeSceneIndex < length scs
            then Drawn activeSceneIndex (sceneProgress scs dur activeSceneIndex currentTime)
            else Throws))"

section \<open>Project creation\<close>

text \<open>
  Strings are lists of characters. \<^verbatim>\<open>String.prototype.trim\<close> removes white space and
  line terminators at both ends; of these, the ones a \<open>char\<close> can hold are the
  characters 9 to 13, the space and the no-break space.
\<close>

definition isWhiteSpace :: "char \<Rightarrow> bool" where
  "isWhiteSpace c \<longleftrightarrow>
     c \<in> set [CHR 0x09, CHR 0x0A, CHR 0x0B, CHR 0x0C, CHR 0x0D, CHR 0x20, CHR 0xA0]"

definition trim :: "string \<Rightarrow> string" where
  "trim s = rev (dropWhile isWhiteSpace (rev (dropWhile isWhiteSpace s)))"

text \<open>\<^verbatim>\<open>s.split('\n')\<close>: the pieces between line feeds; one empty piece for the empty string.\<close>

fun split_lines :: "string \<Rightarrow> string list" where
  "split_lines [] = [[]]"
| "split_lines (c # cs) =
     (if c = CHR 0x0A then [] # split_lines cs
      else (case split_lines cs of
              [] \<Rightarrow> [[c]]
            | l # ls \<Rightarrow> (c # l) # ls))"

text \<open>
  The messages that \<^verbatim>\<open>initializeProject\<close> hands to \<^verbatim>\<open>setError\<close>: the two early
  returns, the mismatch of the line counts (with both counts, as in the message), and a
  rejected promise of the audio decoding.
\<close>

datatype app_error =
    Fill_all_boxes
  | Api_key_missing
  | Mismatch nat nat
  | Decode_failed string

text \<open>The React state that \<^verbatim>\<open>initializeProject\<close> writes.\<close>

record AppState =
  project :: "ProjectData option"
  error :: "app_error option"
  isGenerating :: bool

text \<open>
  \<^verbatim>\<open>initializeProject\<close> (lines 119-174), up to the start of the image generation, which
  it does not wait for. The text boxes, the chosen file and the key are arguments; the
  decoding of the file is the parameter \<open>decodeAudioData\<close>, \<open>Inl\<close> for a rejection.
  The quotient and the products of the start times are rounded to doubles.
  The \<^verbatim>\<open>catch\<close> block sets the error and clears the project; the early returns leave
  the project as it is.
\<close>

definition initializeProject ::
  "('f \<Rightarrow> string + AudioBuffer) \<Rightarrow> string \<Rightarrow> string \<Rightarrow> 'f option \<Rightarrow> string \<Rightarrow>
   AppState \<Rightarrow> AppState" where
  "initializeProject decodeAudioData promptsInput scriptInput audioFile apiKey st =
     (case audioFile of
        None \<Rightarrow> st\<lparr>error := Some Fill_all_boxes\<rparr>
      | Some file \<Rightarrow>
          if trim promptsInput = [] \<or> trim scriptInput = []
          then st\<lparr>error := Some Fill_all_boxes\<rparr>
          else if apiKey = [] then st\<lparr>error := Some Api_key_missing\<rparr>
          else
            (let prompts = filter (\<lambda>line. trim line \<noteq> []) (split_lines promptsInput);
                 scripts = filter (\<lambda>line. trim line \<noteq> []) (split_lines scriptInput)
             in if length prompts \<noteq> length scripts
                then st\<lparr>project := None,
                        error := Some (Mismatch (length prompts) (length scripts)),
                        isGenerating := False\<rparr>
                else
                  (case decodeAudioData file of
                     Inl msg \<Rightarrow>
                       st\<lparr>project := None, error := Some (Decode_failed msg),
                          isGenerating := False\<rparr>
                   | Inr buffer \<Rightarrow>
                       (let interval = js_divide (buffer_duration buffer) (real (length prompts));
                            initialScenes =
                              array_map (\<lambda>prompt' idx.
                                  \<lparr>scene_id = idx + 1, prompt = trim prompt',
                                   script = trim (scripts ! idx), status = Pending,
                                   startTime = js_times (real idx) interval, imageUrl = None\<rparr>)
                                prompts;
                            newProject =
                              \<lparr>scenes = initialScenes, audioBuffer = buffer,
                               duration = buffer_duration buffer\<rparr>
                        in st\<lparr>project := Some newProject, error := None,
                              isGenerating := False\<rparr>))))"

section \<open>Sequential generation of the visuals\<close>

text \<open>
  The three updaters that \<^verbatim>\<open>generateVisuals\<close> passes to \<^verbatim>\<open>setProject\<close> change the
  scene at position \<open>i\<close> of the state's own array and keep a \<^verbatim>\<open>null\<close> state. The
  position is one of the array whenever the state holds the project the loop was started
  on; elsewhere the list update below changes nothing, where the source would fail on
  \<^verbatim>\<open>undefined\<close>.
\<close>

definition updateScene ::
  "nat \<Rightarrow> (Scene \<Rightarrow> Scene) \<Rightarrow> ProjectData option \<Rightarrow> ProjectData option" where
  "updateScene i f prev =
     (case prev of
        None \<Rightarrow> None
      | Some p \<Rightarrow> Some (p\<lparr>scenes := (scenes p)[i := f (scenes p ! i)]\<rparr>))"

text \<open>
  The loop of \<^verbatim>\<open>generateVisuals\<close> (lines 180-209) from position \<open>i\<close> on. The
  collaborator \<open>generateSceneImage\<close> is a parameter: the answer to the call number
  \<open>i\<close> with a prompt and a key, \<open>None\<close> when the call throws. \<open>scs\<close> is the copy of
  the scene array taken before the loop. The state is the project and the list of the
  prompts requested so far, oldest first.
\<close>

function generateVisuals_loop ::
  "(nat \<Rightarrow> string \<Rightarrow> string \<Rightarrow> string option) \<Rightarrow> string \<Rightarrow> Scene list \<Rightarrow> nat \<Rightarrow>
   ProjectData option \<times> string list \<Rightarrow> ProjectData option \<times> string list" where
  "generateVisuals_loop generateSceneImage key scs i (st, requested) =
     (if i < length scs
      then
        (let st1 = updateScene i (\<lambda>s. s\<lparr>status := Generating_image\<rparr>) st;
             requested1 = requested @ [prompt (scs ! i)]
         in case generateSceneImage i (prompt (scs ! i)) key of
              Some url \<Rightarrow>
                generateVisuals_loop generateSceneImage key scs (Suc i)
                  (updateScene i (\<lambda>s. s\<lparr>imageUrl := Some url, status := Ready\<rparr>) st1,
                   requested1)
            | None \<Rightarrow>
                generateVisuals_loop generateSceneImage key scs (Suc i)
                  (updateScene i (\<lambda>s. s\<lparr>status := Error\<rparr>) st1, requested1))
      else (st, requested))"
  by pat_completeness auto
termination
  by (relation "measure (\<lambda>(g, key, scs, i, st). length scs - i)") auto

definition generateVisuals ::
  "(nat \<Rightarrow> string \<Rightarrow> string \<Rightarrow> string option) \<Rightarrow> ProjectData \<Rightarrow> string \<Rightarrow>
   ProjectData option \<Rightarrow> ProjectData option \<times> string list" where
  "generateVisuals generateSceneImage currentProject key st =
     generateVisuals_loop generateSceneImage key (scenes currentProject) 0 (st, [])"

text \<open>What the loop leaves of a scene, by the outcome of its request.\<close>

definition generated :: "string option \<Rightarrow> Scene \<Rightarrow> Scene" where
  "generated outcome s =
     (case outcome of
        Some url \<Rightarrow> s\<lparr>imageUrl := Some url, status := Ready\<rparr>
      | None \<Rightarrow> s\<lparr>status := Error\<rparr>)"

section \<open>Concrete inputs\<close>

text \<open>A project of three scenes over thirty seconds of audio, with the given starts.\<close>

definition timeline :: "real \<Rightarrow> real \<Rightarrow> real \<Rightarrow> ProjectData" where
  "timeline a b c =
     \<lparr>scenes = [pendingScene 1 a, pendingScene 2 b, pendingScene 3 c],
      audioBuffer = \<lparr>buffer_duration = 30\<rparr>, duration = 30\<rparr>"

text \<open>
  Five scenes with edited starts over one second of audio, and the same project after
  the even redistribution: the starts are the doubles 0, 0.2, 0.4, 0.6000000000000001
  and 0.8.
\<close>

definition five_scenes :: ProjectData where
  "five_scenes =
     \<lparr>scenes = [pendingScene 1 0, pendingScene 2 (1 / 4), pendingScene 3 (1 / 4),
                pendingScene 4 (1 / 2), pendingScene 5 (3 / 4)],
      audioBuffer = \<lparr>buffer_duration = 1\<rparr>, duration = 1\<rparr>"

definition five_aligned :: ProjectData where
  "five_aligned =
     \<lparr>scenes = [pendingScene 1 0,
                pendingScene 2 (3602879701896397 / 2 ^ 54),
                pendingScene 3 (3602879701896397 / 2 ^ 53),
                pendingScene 4 (5404319552844596 / 2 ^ 53),
                pendingScene 5 (3602879701896397 / 2 ^ 52)],
      audioBuffer = \<lparr>buffer_duration = 1\<rparr>, duration = 1\<rparr>"

text \<open>A collaborator that fails on the second request only.\<close>

definition failing_second :: "nat \<Rightarrow> string \<Rightarrow> string \<Rightarrow> string option" where
  "failing_second i pr key = (if i = 1 then None else Some (''img:'' @ pr))"

text \<open>A decoder that answers every file with thirty seconds of audio.\<close>

definition thirty_seconds :: "unit \<Rightarrow> string + AudioBuffer" where
  "thirty_seconds file = Inr \<lparr>buffer_duration = 30\<rparr>"

text \<open>The state of the setup view: no project yet.\<close>

definition setup_state :: AppState where
  "setup_state = \<lparr>project = None, error = None, isGenerating = False\<rparr>"

section \<open>Properties of the resolver\<close>

lemma reduce_from_snoc:
  "reduce_from f acc idx (xs @ [x]) = f (reduce_from f acc idx xs) x (idx + length xs)"
  by (induction xs arbitrary: acc idx) simp_all

lemma reduce_snoc:
  "reduce f init (xs @ [x]) = f (reduce f init xs) x (length xs)"
  by (simp add: reduce_def reduce_from_snoc)

lemma reduce_Nil: "reduce f init [] = init"
  by (simp add: reduce_def)

text \<open>The fold, one scene at a time from the right.\<close>

lemma active_snoc:
  "reduce (\<lambda>b s idx. if startTime s \<le> t then idx else b) 0 (xs @ [x]) =
     (if startTime x \<le> t then length xs
      else reduce (\<lambda>b s idx. if startTime s \<le> t then idx else b) 0 xs)"
  by (simp add: reduce_snoc)

lemma active_none:
  "\<forall>i<length xs. \<not> startTime (xs ! i) \<le> t \<Longrightarrow>
     reduce (\<lambda>b s idx. if startTime s \<le> t then idx else b) 0 xs = 0"
proof (induction xs rule: rev_induct)
  case Nil
  show ?case by (simp add: reduce_Nil)
next
  case (snoc x xs)
  have last: "\<not> startTime x \<le> t"
    using snoc.prems [rule_format, of "length xs"] by simp
  have "\<forall>i<length xs. \<not> startTime (xs ! i) \<le> t"
  proof (intro allI impI)
    fix i assume "i < length xs"
    then show "\<not> startTime (xs ! i) \<le> t"
      using snoc.prems [rule_format, of i] by (simp add: nth_append)
  qed
  then show ?case using snoc.IH last by (simp add: active_snoc)
qed

lemma active_some:
  "\<exists>i<length xs. startTime (xs ! i) \<le> t \<Longrightarrow>
     greatest_qualifying xs t
       (reduce (\<lambda>b s idx. if startTime s \<le> t then idx else b) 0 xs)"
proof (induction xs rule: rev_induct)
  case Nil
  then show ?case by simp
next
  case (snoc x xs)
  show ?case
  proof (cases "startTime x \<le> t")
    case True
    then show ?thesis
      by (auto simp: active_snoc greatest_qualifying_def)
  next
    case False
    from snoc.prems obtain i where i: "i < length xs + 1" "startTime ((xs @ [x]) ! i) \<le> t"
      by auto
    with False have "i < length xs"
      by (cases "i = length xs") auto
    with i have ex: "\<exists>i<length xs. startTime (xs ! i) \<le> t"
      by (auto simp: nth_append)
    have gq: "greatest_qualifying xs t
       (reduce (\<lambda>b s idx. if startTime s \<le> t then idx else b) 0 xs)"
      by (rule snoc.IH [OF ex])
    show ?thesis
      using gq False
      by (auto simp: active_snoc greatest_qualifying_def nth_append less_Suc_eq)
  qed
qed

lemma active_lt_length:
  fixes xs :: "Scene list"
  shows "xs \<noteq> [] \<Longrightarrow> reduce (\<lambda>b s idx. if startTime s \<le> t then idx else b) 0 xs < length xs"
proof (cases "\<exists>i<length xs. startTime (xs ! i) \<le> t")
  case True
  then show ?thesis using active_some [OF True] by (simp add: greatest_qualifying_def)
next
  case False
  assume "xs \<noteq> []"
  then show ?thesis using active_none [of xs t] False by simp
qed

text \<open>
  C1. For every scene list and every time, the active-scene computation of the player
  and of the renderer returns the greatest array position whose scene has
  \<open>startTime \<le> time\<close>, and 0 when no scene has; no ordering of the start times is
  assumed.
\<close>

theorem activeSceneIndex_last_qualifying:
  "(if \<exists>i<length scs. startTime (scs ! i) \<le> time
    then greatest_qualifying scs time (Player_activeSceneIndex scs time) \<and>
         greatest_qualifying scs time (drawFrame_activeSceneIndex scs time)
    else Player_activeSceneIndex scs time = 0 \<and>
         drawFrame_activeSceneIndex scs time = 0)"
proof (cases "\<exists>i<length scs. startTime (scs ! i) \<le> time")
  case True
  then show ?thesis
    using active_some [OF True]
    by (simp add: Player_activeSceneIndex_def drawFrame_activeSceneIndex_def)
next
  case False
  then have "\<forall>i<length scs. \<not> startTime (scs ! i) \<le> time" by blast
  from active_none [OF this] False show ?thesis
    unfolding Player_activeSceneIndex_def drawFrame_activeSceneIndex_def by auto
qed

text \<open>
  A timeline whose start times are not monotonic, 0, 5, 2, 9, at time 3: the fold returns
  the greatest qualifying position; and a timeline where nothing has started: position 0.
\<close>

theorem activeSceneIndex_last_qualifying_witness:
  "greatest_qualifying [pendingScene 1 0, pendingScene 2 5, pendingScene 3 2, pendingScene 4 9] 3
     (Player_activeSceneIndex
        [pendingScene 1 0, pendingScene 2 5, pendingScene 3 2, pendingScene 4 9] 3) \<and>
   Player_activeSceneIndex [pendingScene 1 4, pendingScene 2 5] 3 = 0"
proof -
  have q: "\<exists>i<length [pendingScene 1 0, pendingScene 2 5, pendingScene 3 2, pendingScene 4 9].
             startTime ([pendingScene 1 0, pendingScene 2 5, pendingScene 3 2, pendingScene 4 9] ! i) \<le> 3"
    by (rule exI [of _ 0]) (simp add: pendingScene_def)
  have n: "\<not> (\<exists>i<length [pendingScene 1 4, pendingScene 2 5].
             startTime ([pendingScene 1 4, pendingScene 2 5] ! i) \<le> 3)"
    by (simp add: pendingScene_def Ex_less_Suc)
  show ?thesis
    using activeSceneIndex_last_qualifying
            [of "[pendingScene 1 0, pendingScene 2 5, pendingScene 3 2, pendingScene 4 9]" 3]
          activeSceneIndex_last_qualifying [of "[pendingScene 1 4, pendingScene 2 5]" 3]
          q n
    by presburger
qed

text \<open>
  C2. The active-scene computation of the interactive player and the one of the offline
  renderer are the same function of the scene list and the time.
\<close>

theorem player_renderer_same_activeSceneIndex:
  "Player_activeSceneIndex scs time = drawFrame_activeSceneIndex scs time"
  by (simp add: Player_activeSceneIndex_def drawFrame_activeSceneIndex_def)

lemma active_all_later:
  fixes xs :: "Scene list"
  assumes "\<forall>s\<in>set xs. t < startTime s"
  shows "reduce (\<lambda>b s idx. if startTime s \<le> t then idx else b) 0 xs = 0"
proof (rule active_none, intro allI impI)
  fix i assume "i < length xs"
  then have "xs ! i \<in> set xs" by simp
  with assms have "t < startTime (xs ! i)" by blast
  then show "\<not> startTime (xs ! i) \<le> t" by simp
qed

text \<open>
  C8 (amended). For every non-empty scene sequence in which no scene starts before the
  first one (every monotonic sequence is one) and every time before the start of the
  first scene, the player and the renderer resolve position 0. Without the condition on
  the sequence the statement fails, see the counterexample below.
\<close>

theorem activeSceneIndex_before_first:
  "scs \<noteq> [] \<Longrightarrow> \<forall>s\<in>set scs. startTime (scs ! 0) \<le> startTime s \<Longrightarrow>
   time < startTime (scs ! 0) \<Longrightarrow>
   Player_activeSceneIndex scs time = 0 \<and> drawFrame_activeSceneIndex scs time = 0"
proof -
  assume first: "\<forall>s\<in>set scs. startTime (scs ! 0) \<le> startTime s"
    and before: "time < startTime (scs ! 0)"
  have "\<forall>s\<in>set scs. time < startTime s"
    using first before by fastforce
  from active_all_later [OF this] show ?thesis
    by (simp add: Player_activeSceneIndex_def drawFrame_activeSceneIndex_def)
qed

text \<open>
  The starts 2, 6, 4 at time 1.
\<close>

theorem activeSceneIndex_before_first_witness:
  "Player_activeSceneIndex [pendingScene 1 2, pendingScene 2 6, pendingScene 3 4] 1 = 0 \<and>
   drawFrame_activeSceneIndex [pendingScene 1 2, pendingScene 2 6, pendingScene 3 4] 1 = 0"
  using activeSceneIndex_before_first
          [of "[pendingScene 1 2, pendingScene 2 6, pendingScene 3 4]" 1]
  by (simp add: pendingScene_def)

text \<open>
  With the starts 5, 3 and the time 4, the time is before the start of the first scene,
  and the second scene, which has started, is the active one.
\<close>

theorem activeSceneIndex_before_first_counterexample:
  "[pendingScene 1 5, pendingScene 2 3] \<noteq> [] \<and>
   4 < startTime ([pendingScene 1 5, pendingScene 2 3] ! 0) \<and>
   Player_activeSceneIndex [pendingScene 1 5, pendingScene 2 3] 4 = 1 \<and>
   drawFrame_activeSceneIndex [pendingScene 1 5, pendingScene 2 3] 4 = 1"
  by (simp add: Player_activeSceneIndex_def drawFrame_activeSceneIndex_def reduce_def
        pendingScene_def)

section \<open>Properties of the live synchronisation\<close>

lemma findIndex_from_Some:
  "findIndex_from P k xs = Some r \<Longrightarrow>
     k \<le> r \<and> r - k < length xs \<and> P (xs ! (r - k)) \<and> (\<forall>j<r - k. \<not> P (xs ! j))"
proof (induction xs arbitrary: k)
  case Nil
  then show ?case by simp
next
  case (Cons x xs)
  show ?case
  proof (cases "P x")
    case True
    with Cons.prems show ?thesis by simp
  next
    case False
    with Cons.prems have rec: "findIndex_from P (Suc k) xs = Some r" by simp
    from Cons.IH [OF rec] have ih:
      "Suc k \<le> r" "r - Suc k < length xs" "P (xs ! (r - Suc k))"
      "\<forall>j<r - Suc k. \<not> P (xs ! j)" by simp_all
    from ih(1) have rk: "r - k = Suc (r - Suc k)" by simp
    have "\<forall>j<r - k. \<not> P ((x # xs) ! j)"
    proof (intro allI impI)
      fix j assume "j < r - k"
      then show "\<not> P ((x # xs) ! j)"
        using False ih(4) rk by (cases j) simp_all
    qed
    then show ?thesis using ih rk by simp
  qed
qed

lemma findIndex_from_None:
  "findIndex_from P k xs = None \<longleftrightarrow> (\<forall>x\<in>set xs. \<not> P x)"
  by (induction xs arbitrary: k) simp_all

lemma findIndex_Some:
  "findIndex P xs = Some r \<Longrightarrow> r < length xs \<and> P (xs ! r) \<and> (\<forall>j<r. \<not> P (xs ! j))"
  using findIndex_from_Some [of P 0 xs r] by (simp add: findIndex_def)

lemma findIndex_None: "findIndex P xs = None \<longleftrightarrow> (\<forall>x\<in>set xs. \<not> P x)"
  by (simp add: findIndex_def findIndex_from_None)

lemma findIndex_first:
  assumes "r < length xs" "P (xs ! r)" "\<forall>j<r. \<not> P (xs ! j)"
  shows "findIndex P xs = Some r"
proof (cases "findIndex P xs")
  case None
  with assms(1,2) show ?thesis by (auto simp: findIndex_None)
next
  case (Some r')
  from findIndex_Some [OF Some] have r': "r' < length xs" "P (xs ! r')" "\<forall>j<r'. \<not> P (xs ! j)"
    by simp_all
  have "r' = r"
  proof (rule ccontr)
    assume "r' \<noteq> r"
    then consider "r' < r" | "r < r'" by linarith
    then show False using assms r' by cases auto
  qed
  with Some show ?thesis by simp
qed

lemma handleRecordSync_first:
  assumes "i < length (scenes p)" "startTime (scenes p ! i) > t"
    "\<forall>j<i. startTime (scenes p ! j) \<le> t"
  shows "handleRecordSync (Some p) t =
        (if (if i > 0 then startTime (scenes p ! (i - 1)) else 0) \<le> t
         then Some (p\<lparr>scenes := (scenes p)[i := (scenes p ! i)\<lparr>startTime := t\<rparr>]\<rparr>)
         else Some p)"
proof -
  have "\<forall>j<i. \<not> startTime (scenes p ! j) > t"
    using assms(3) by (simp add: not_less)
  with assms(1,2) have "findIndex (\<lambda>s. startTime s > t) (scenes p) = Some i"
    by (intro findIndex_first) simp_all
  then show ?thesis by (simp add: handleRecordSync_def Let_def)
qed

lemma handleRecordSync_none:
  assumes "\<forall>j<length (scenes p). startTime (scenes p ! j) \<le> t"
  shows "handleRecordSync (Some p) t = Some p"
proof -
  have "\<forall>s\<in>set (scenes p). \<not> startTime s > t"
    using assms by (auto simp: in_set_conv_nth not_less)
  then have "findIndex (\<lambda>s. startTime s > t) (scenes p) = None"
    by (simp add: findIndex_None)
  then show ?thesis by (simp add: handleRecordSync_def Let_def)
qed

lemma sync_7: "handleRecordSync (Some (timeline 0 5 10)) 7 = Some (timeline 0 5 7)"
  by (simp add: handleRecordSync_def findIndex_def timeline_def pendingScene_def)

lemma sync_3: "handleRecordSync (Some (timeline 0 5 7)) 3 = Some (timeline 0 3 7)"
  by (simp add: handleRecordSync_def findIndex_def timeline_def pendingScene_def)

text \<open>
  C5 (amended). \<^verbatim>\<open>handleRecordSync\<close> takes the first scene by array order whose start
  is after the current time. When the current time is not before the start of the scene
  just before it (not before 0 when it is the first scene), that one scene gets the
  current time as its start and nothing else changes; otherwise, and when no scene starts
  after the current time, the project is unchanged. With the starts 0, 5, 10 and the
  current time 7, the scene at position 2 gets the start 7; a following call at the
  current time 3 is accepted as well and gives the scene at position 1 the start 3.
\<close>

theorem handleRecordSync_snaps_next_scene:
  "(i < length (scenes p) \<and> startTime (scenes p ! i) > t \<and>
      (\<forall>j<i. startTime (scenes p ! j) \<le> t) \<longrightarrow>
      handleRecordSync (Some p) t =
        (if (if i > 0 then startTime (scenes p ! (i - 1)) else 0) \<le> t
         then Some (p\<lparr>scenes := (scenes p)[i := (scenes p ! i)\<lparr>startTime := t\<rparr>]\<rparr>)
         else Some p)) \<and>
   ((\<forall>j<length (scenes p). startTime (scenes p ! j) \<le> t) \<longrightarrow>
      handleRecordSync (Some p) t = Some p) \<and>
   handleRecordSync (Some (timeline 0 5 10)) 7 = Some (timeline 0 5 7) \<and>
   handleRecordSync (Some (timeline 0 5 7)) 3 = Some (timeline 0 3 7)"
  using handleRecordSync_first [of i p t] handleRecordSync_none [of p t] sync_7 sync_3
  by blast

text \<open>
  The starts 0, 5, 10: at time 7 the third scene is snapped; at time 12 no scene is left
  to snap; at time -1 the first scene is the next one and the guard against 0 declines.
\<close>

theorem handleRecordSync_snaps_next_scene_witness:
  "handleRecordSync (Some (timeline 0 5 10)) 7 =
     Some ((timeline 0 5 10)\<lparr>scenes := (scenes (timeline 0 5 10))
             [2 := (scenes (timeline 0 5 10) ! 2)\<lparr>startTime := 7\<rparr>]\<rparr>) \<and>
   handleRecordSync (Some (timeline 0 5 10)) 12 = Some (timeline 0 5 10) \<and>
   handleRecordSync (Some (timeline 0 5 10)) (- 1) = Some (timeline 0 5 10)"
proof -
  have a: "2 < length (scenes (timeline 0 5 10)) \<and> startTime (scenes (timeline 0 5 10) ! 2) > 7 \<and>
      (\<forall>j<2. startTime (scenes (timeline 0 5 10) ! j) \<le> 7)"
    by (simp add: timeline_def pendingScene_def All_less_Suc numeral_2_eq_2)
  have g: "(if (2::nat) > 0 then startTime (scenes (timeline 0 5 10) ! (2 - 1)) else 0) \<le> 7"
    by (simp add: timeline_def pendingScene_def)
  have b: "\<forall>j<length (scenes (timeline 0 5 10)). startTime (scenes (timeline 0 5 10) ! j) \<le> 12"
    by (simp add: timeline_def pendingScene_def All_less_Suc)
  have c: "0 < length (scenes (timeline 0 5 10)) \<and> startTime (scenes (timeline 0 5 10) ! 0) > - 1 \<and>
      (\<forall>j<0. startTime (scenes (timeline 0 5 10) ! j) \<le> - 1)"
    by (simp add: timeline_def pendingScene_def)
  show ?thesis
    using handleRecordSync_snaps_next_scene [of 2 "timeline 0 5 10" 7]
      handleRecordSync_snaps_next_scene [of 2 "timeline 0 5 10" 12]
      handleRecordSync_snaps_next_scene [of 0 "timeline 0 5 10" "- 1"] a g b c
    by simp
qed

text \<open>
  After the call at time 7 the starts are 0, 5, 7; the call at time 3 does not leave them
  so: it is not declined.
\<close>

theorem handleRecordSync_second_sync_counterexample:
  "handleRecordSync (Some (timeline 0 5 10)) 7 = Some (timeline 0 5 7) \<and>
   handleRecordSync (Some (timeline 0 5 7)) 3 \<noteq> Some (timeline 0 5 7)"
  by (simp add: handleRecordSync_def findIndex_def timeline_def pendingScene_def)

text \<open>
  C10. When the current time is not negative and some scene starts after it,
  \<^verbatim>\<open>handleRecordSync\<close> finds a next scene, every scene before it has started by the
  current time, the guard holds, the start of the next scene is set and the project
  changes: the declining branch is not taken.
\<close>

theorem handleRecordSync_guard_always_passes:
  assumes "0 \<le> t" and "\<exists>s\<in>set (scenes p). startTime s > t"
  shows "\<exists>i<length (scenes p).
           findIndex (\<lambda>s. startTime s > t) (scenes p) = Some i \<and>
           (\<forall>j<i. startTime (scenes p ! j) \<le> t) \<and>
           (if i > 0 then startTime (scenes p ! (i - 1)) else 0) \<le> t \<and>
           handleRecordSync (Some p) t =
             Some (p\<lparr>scenes := (scenes p)[i := (scenes p ! i)\<lparr>startTime := t\<rparr>]\<rparr>) \<and>
           handleRecordSync (Some p) t \<noteq> Some p"
proof -
  from assms(2) have "findIndex (\<lambda>s. startTime s > t) (scenes p) \<noteq> None"
    by (simp add: findIndex_None)
  then obtain i where fi: "findIndex (\<lambda>s. startTime s > t) (scenes p) = Some i" by blast
  from findIndex_Some [OF fi] have i: "i < length (scenes p)" "startTime (scenes p ! i) > t"
    "\<forall>j<i. \<not> startTime (scenes p ! j) > t" by simp_all
  from i(3) have before: "\<forall>j<i. startTime (scenes p ! j) \<le> t" by (simp add: not_less)
  have guard: "(if i > 0 then startTime (scenes p ! (i - 1)) else 0) \<le> t"
  proof (cases "i > 0")
    case True
    then have "i - 1 < i" by simp
    with before True show ?thesis by simp
  next
    case False
    with assms(1) show ?thesis by simp
  qed
  have res: "handleRecordSync (Some p) t =
      Some (p\<lparr>scenes := (scenes p)[i := (scenes p ! i)\<lparr>startTime := t\<rparr>]\<rparr>)"
    using fi guard by (simp add: handleRecordSync_def Let_def)
  have "scenes (p\<lparr>scenes := (scenes p)[i := (scenes p ! i)\<lparr>startTime := t\<rparr>]\<rparr>) ! i \<noteq> scenes p ! i"
  proof
    assume "scenes (p\<lparr>scenes := (scenes p)[i := (scenes p ! i)\<lparr>startTime := t\<rparr>]\<rparr>) ! i = scenes p ! i"
    then have "startTime ((scenes p ! i)\<lparr>startTime := t\<rparr>) = startTime (scenes p ! i)"
      using i(1) by simp
    with i(2) show False by simp
  qed
  then have "p\<lparr>scenes := (scenes p)[i := (scenes p ! i)\<lparr>startTime := t\<rparr>]\<rparr> \<noteq> p"
    by metis
  with res i(1) fi before guard show ?thesis by auto
qed

text \<open>
  The starts 0, 5, 10 at time 3.
\<close>

theorem handleRecordSync_guard_always_passes_witness:
  "\<exists>i<length (scenes (timeline 0 5 10)).
           findIndex (\<lambda>s. startTime s > 3) (scenes (timeline 0 5 10)) = Some i \<and>
           (\<forall>j<i. startTime (scenes (timeline 0 5 10) ! j) \<le> 3) \<and>
           (if i > 0 then startTime (scenes (timeline 0 5 10) ! (i - 1)) else 0) \<le> 3 \<and>
           handleRecordSync (Some (timeline 0 5 10)) 3 =
             Some ((timeline 0 5 10)\<lparr>scenes := (scenes (timeline 0 5 10))
                [i := (scenes (timeline 0 5 10) ! i)\<lparr>startTime := 3\<rparr>]\<rparr>) \<and>
           handleRecordSync (Some (timeline 0 5 10)) 3 \<noteq> Some (timeline 0 5 10)"
proof -
  have a: "(0::real) \<le> 3" by simp
  have b: "\<exists>s\<in>set (scenes (timeline 0 5 10)). startTime s > 3"
    by (simp add: timeline_def pendingScene_def)
  show ?thesis by (rule handleRecordSync_guard_always_passes [OF a b])
qed

section \<open>Properties of the rendered frame\<close>

lemma sceneProgress_eq:
  "sceneProgress scs dur i t =
     (let start = startTime (scs ! i); end' = nextStartTime scs dur i
      in if end' \<noteq> start then Fin (max 0 (min 1 ((t - start) / (end' - start))))
         else if t > start then Fin 1
         else if t < start then Fin 0
         else NaN)"
  by (simp add: sceneProgress_def js_div_def Let_def)

text \<open>Where the active scene has started, its end lies after the time.\<close>

lemma started_window:
  fixes scs :: "Scene list"
  assumes gq: "greatest_qualifying scs t i" and td: "t < dur"
  shows "startTime (scs ! i) \<le> t \<and> t < nextStartTime scs dur i"
proof -
  from gq have i: "i < length scs" "startTime (scs ! i) \<le> t"
    and top: "\<forall>j<length scs. startTime (scs ! j) \<le> t \<longrightarrow> j \<le> i"
    by (simp_all add: greatest_qualifying_def)
  have "t < nextStartTime scs dur i"
  proof (cases "Suc i < length scs")
    case True
    have "\<not> startTime (scs ! Suc i) \<le> t"
    proof
      assume "startTime (scs ! Suc i) \<le> t"
      with top True have "Suc i \<le> i" by blast
      then show False by simp
    qed
    with True show ?thesis by (simp add: nextStartTime_def)
  next
    case False
    with td show ?thesis by (simp add: nextStartTime_def)
  qed
  with i show ?thesis by simp
qed

text \<open>Where no scene has started, the first one is shown before its start.\<close>

lemma fallback_window:
  fixes scs :: "Scene list"
  assumes none: "\<forall>j<length scs. \<not> startTime (scs ! j) \<le> t" and ne: "scs \<noteq> []" and td: "t < dur"
  shows "t < startTime (scs ! 0) \<and> t < nextStartTime scs dur 0"
proof -
  from ne have l: "0 < length scs" by simp
  with none have a: "t < startTime (scs ! 0)" by (simp add: not_le)
  have "t < nextStartTime scs dur 0"
  proof (cases "Suc 0 < length scs")
    case True
    with none have "t < startTime (scs ! Suc 0)" by (simp add: not_le)
    with True show ?thesis by (simp add: nextStartTime_def)
  next
    case False
    with td show ?thesis by (simp add: nextStartTime_def)
  qed
  with a show ?thesis by simp
qed

text \<open>The two ways a scene is active at a time before the duration.\<close>

lemma active_window:
  fixes scs :: "Scene list"
  assumes ne: "scs \<noteq> []" and td: "t < dur"
  defines "i \<equiv> drawFrame_activeSceneIndex scs t"
  shows "i < length scs \<and> t < nextStartTime scs dur i \<and>
         (startTime (scs ! i) \<le> t \<or> (i = 0 \<and> (\<forall>j<length scs. t < startTime (scs ! j))))"
proof (cases "\<exists>j<length scs. startTime (scs ! j) \<le> t")
  case True
  from active_some [OF True] have gq: "greatest_qualifying scs t i"
    by (simp add: i_def drawFrame_activeSceneIndex_def)
  from started_window [OF gq td] gq show ?thesis
    by (simp add: greatest_qualifying_def)
next
  case False
  then have none: "\<forall>j<length scs. \<not> startTime (scs ! j) \<le> t" by blast
  from active_none [OF none] have i0: "i = 0"
    by (simp add: i_def drawFrame_activeSceneIndex_def)
  from fallback_window [OF none ne td] i0 ne none show ?thesis
    by (simp add: not_le)
qed

lemma quotient_above_one:
  fixes a b :: real
  assumes "a < b" "b < 0"
  shows "1 \<le> a / b"
  using assms by (simp add: divide_le_eq)

lemma progress_started:
  fixes scs :: "Scene list"
  assumes "startTime (scs ! i) \<le> t" "t < nextStartTime scs dur i"
  shows "sceneProgress scs dur i t =
     Fin (max 0 (min 1 ((t - startTime (scs ! i)) / (nextStartTime scs dur i - startTime (scs ! i)))))"
  using assms by (simp add: sceneProgress_eq Let_def)

lemma progress_fallback:
  fixes scs :: "Scene list"
  assumes "t < startTime (scs ! i)" "t < nextStartTime scs dur i"
  shows "sceneProgress scs dur i t =
     Fin (if nextStartTime scs dur i < startTime (scs ! i) then 1 else 0)"
proof -
  let ?s = "startTime (scs ! i)" and ?e = "nextStartTime scs dur i"
  consider "?e < ?s" | "?e = ?s" | "?s < ?e" by linarith
  then show ?thesis
  proof cases
    case 1
    from assms(2) have "t - ?s < ?e - ?s" by simp
    moreover from 1 have "?e - ?s < 0" by simp
    ultimately have "1 \<le> (t - ?s) / (?e - ?s)" by (rule quotient_above_one)
    with 1 show ?thesis by (simp add: sceneProgress_eq Let_def)
  next
    case 2
    with assms(1) show ?thesis by (simp add: sceneProgress_eq Let_def)
  next
    case 3
    with assms(1) have "(t - ?s) / (?e - ?s) \<le> 0"
      by (simp add: divide_le_0_iff)
    with 3 show ?thesis by (simp add: sceneProgress_eq Let_def)
  qed
qed

lemma drawFrame_Drawn:
  fixes scs :: "Scene list"
  assumes "scs \<noteq> []" "t < dur"
  shows "drawFrame scs dur t =
     Drawn (drawFrame_activeSceneIndex scs t)
       (sceneProgress scs dur (drawFrame_activeSceneIndex scs t) t)"
  using assms active_lt_length [of scs t]
  by (simp add: drawFrame_def drawFrame_activeSceneIndex_def Let_def)

lemma clamp_mono:
  fixes a b c :: real
  assumes "a \<le> b" "0 < c"
  shows "max 0 (min 1 (a / c)) \<le> max 0 (min 1 (b / c))"
proof -
  from assms have "a / c \<le> b / c" by (simp add: divide_right_mono)
  then show ?thesis by (simp add: max_def min_def)
qed

lemma progress_mono:
  fixes scs :: "Scene list"
  assumes t: "t < nextStartTime scs dur i" and t': "t' < nextStartTime scs dur i"
    and le: "t \<le> t'"
    and p: "sceneProgress scs dur i t = Fin p" and p': "sceneProgress scs dur i t' = Fin p'"
  shows "p \<le> p'"
proof (cases "startTime (scs ! i) \<le> t")
  case True
  with le have True': "startTime (scs ! i) \<le> t'" by simp
  from True t have pos: "0 < nextStartTime scs dur i - startTime (scs ! i)" by simp
  from le have "t - startTime (scs ! i) \<le> t' - startTime (scs ! i)" by simp
  from clamp_mono [OF this pos] progress_started [OF True t] progress_started [OF True' t'] p p'
  show ?thesis by simp
next
  case False
  then have before: "t < startTime (scs ! i)" by simp
  show ?thesis
  proof (cases "startTime (scs ! i) \<le> t'")
    case True
    with t' have "\<not> nextStartTime scs dur i < startTime (scs ! i)" by simp
    with progress_fallback [OF before t] p have "p = 0" by simp
    moreover from progress_started [OF True t'] p' have "0 \<le> p'" by auto
    ultimately show ?thesis by simp
  next
    case False
    then have before': "t' < startTime (scs ! i)" by simp
    from progress_fallback [OF before t] progress_fallback [OF before' t'] p p'
    show ?thesis by simp
  qed
qed

text \<open>
  C3 (amended). Let a frame be drawn at a time before the duration, with at least one
  scene, and let \<open>start\<close> be the start of the active scene and \<open>end'\<close> the start
  of the scene after it by array order, or the duration when it is the last one. The
  progress is a number of the interval from 0 to 1; it is the clamped quotient
  \<open>(t - start) / (end' - start)\<close> whenever \<open>end' \<noteq> start\<close>; it does not decrease
  from this frame to a later frame that shows the same scene; and when the window has
  zero length, no scene has started, the active scene is the first one, shown as the
  fallback before its start, the quotient is minus infinity and the progress is 0. In
  every case the progress is the clamped JavaScript quotient.
\<close>

theorem drawFrame_sceneProgress:
  fixes scs :: "Scene list"
  assumes ne: "scs \<noteq> []" and td: "t < dur"
    and i: "i = drawFrame_activeSceneIndex scs t"
    and s: "start = startTime (scs ! i)"
    and e: "end' = (if Suc i < length scs then startTime (scs ! Suc i) else dur)"
  shows "\<exists>p. drawFrame scs dur t = Drawn i (Fin p) \<and> 0 \<le> p \<and> p \<le> 1 \<and>
           (end' \<noteq> start \<longrightarrow> p = max 0 (min 1 ((t - start) / (end' - start)))) \<and>
           (end' = start \<longrightarrow>
              i = 0 \<and> (\<forall>j<length scs. t < startTime (scs ! j)) \<and> t < start \<and>
              js_div (t - start) (end' - start) = NegInf \<and> p = 0) \<and>
           Math_max 0 (Math_min 1 (js_div (t - start) (end' - start))) = Fin p \<and>
           (\<forall>t' p'. t \<le> t' \<and> t' < dur \<and> drawFrame scs dur t' = Drawn i (Fin p') \<longrightarrow> p \<le> p')"
proof -
  have e': "end' = nextStartTime scs dur i"
    by (auto simp: e nextStartTime_def)
  from active_window [OF ne td] i e' have il: "i < length scs" and te: "t < end'"
    by simp_all
  define p where "p = (if start \<le> t then max 0 (min 1 ((t - start) / (end' - start)))
                       else if end' < start then 1 else 0)"
  have val: "sceneProgress scs dur i t = Fin p"
  proof (cases "start \<le> t")
    case True
    with progress_started [of scs i t dur] te show ?thesis by (simp add: p_def s e')
  next
    case False
    with progress_fallback [of t scs i dur] te show ?thesis by (simp add: p_def s e')
  qed
  have drawn: "drawFrame scs dur t = Drawn i (Fin p)"
    using drawFrame_Drawn [OF ne td] val i by simp
  have range: "0 \<le> p \<and> p \<le> 1" by (simp add: p_def)
  have formula: "end' \<noteq> start \<longrightarrow> p = max 0 (min 1 ((t - start) / (end' - start)))"
    using val by (auto simp: sceneProgress_eq Let_def s e' split: if_splits)
  have window: "start \<le> t \<or> (i = 0 \<and> (\<forall>j<length scs. t < startTime (scs ! j)))"
    using active_window [OF ne td] i s by simp
  have degenerate: "end' = start \<longrightarrow>
              i = 0 \<and> (\<forall>j<length scs. t < startTime (scs ! j)) \<and> t < start \<and>
              js_div (t - start) (end' - start) = NegInf \<and> p = 0"
  proof
    assume z: "end' = start"
    with te have before: "t < start" by simp
    with window have "i = 0 \<and> (\<forall>j<length scs. t < startTime (scs ! j))" by simp
    moreover from before z have "js_div (t - start) (end' - start) = NegInf"
      by (simp add: js_div_def)
    moreover from before z have "p = 0" by (simp add: p_def)
    ultimately show "i = 0 \<and> (\<forall>j<length scs. t < startTime (scs ! j)) \<and> t < start \<and>
              js_div (t - start) (end' - start) = NegInf \<and> p = 0"
      using before by simp
  qed
  have clamped: "Math_max 0 (Math_min 1 (js_div (t - start) (end' - start))) = Fin p"
    using val by (simp add: sceneProgress_def Let_def s e')
  have mono: "\<forall>t' p'. t \<le> t' \<and> t' < dur \<and> drawFrame scs dur t' = Drawn i (Fin p') \<longrightarrow> p \<le> p'"
  proof (intro allI impI)
    fix t' p'
    assume h: "t \<le> t' \<and> t' < dur \<and> drawFrame scs dur t' = Drawn i (Fin p')"
    then have td': "t' < dur" and le: "t \<le> t'" by simp_all
    from h drawFrame_Drawn [OF ne td'] have i': "drawFrame_activeSceneIndex scs t' = i"
      by simp
    from h drawFrame_Drawn [OF ne td'] have val': "sceneProgress scs dur i t' = Fin p'"
      by auto
    from active_window [OF ne td'] i' e' have te': "t' < end'" by simp
    from progress_mono [of t scs dur i t' p p'] te te' le val val' e'
    show "p \<le> p'" by simp
  qed
  from drawn range formula degenerate clamped mono show ?thesis
    by (intro exI [of _ p] conjI) simp_all
qed

text \<open>
  The starts 0, 4, 8 and the duration 12: a quarter of the second scene is over at time
  5, half of it at time 6. The starts 5, 5: the first scene, of zero length, at time 3.
\<close>

theorem drawFrame_sceneProgress_witness:
  "drawFrame [pendingScene 1 0, pendingScene 2 4, pendingScene 3 8] 12 5 = Drawn 1 (Fin (1 / 4)) \<and>
   drawFrame [pendingScene 1 0, pendingScene 2 4, pendingScene 3 8] 12 6 = Drawn 1 (Fin (1 / 2)) \<and>
   (1 / 4 :: real) \<le> 1 / 2 \<and>
   drawFrame [pendingScene 1 5, pendingScene 2 5] 10 3 = Drawn 0 (Fin 0) \<and>
   js_div (3 - 5) (5 - 5) = NegInf"
proof -
  let ?scs = "[pendingScene 1 0, pendingScene 2 4, pendingScene 3 8]"
  have ne: "?scs \<noteq> []" by simp
  have td: "(5::real) < 12" by simp
  have i: "1 = drawFrame_activeSceneIndex ?scs 5"
    by (simp add: drawFrame_activeSceneIndex_def reduce_def pendingScene_def)
  have s: "4 = startTime (?scs ! 1)" by (simp add: pendingScene_def)
  have e: "8 = (if Suc 1 < length ?scs then startTime (?scs ! Suc 1) else 12)"
    by (simp add: pendingScene_def)
  from drawFrame_sceneProgress [OF ne td i s e]
  obtain p where p: "drawFrame ?scs 12 5 = Drawn 1 (Fin p)"
      "(8::real) \<noteq> 4 \<longrightarrow> p = max 0 (min 1 ((5 - 4) / (8 - 4)))"
      "\<forall>t' p'. 5 \<le> t' \<and> t' < 12 \<and> drawFrame ?scs 12 t' = Drawn 1 (Fin p') \<longrightarrow> p \<le> p'"
    by blast
  from p(2) have quarter: "p = 1 / 4" by simp
  have later: "drawFrame ?scs 12 6 = Drawn 1 (Fin (1 / 2))"
    by (simp add: drawFrame_def drawFrame_activeSceneIndex_def reduce_def pendingScene_def
          sceneProgress_def nextStartTime_def js_div_def)
  from p(3) [rule_format, of 6 "1 / 2"] later have mono: "p \<le> 1 / 2" by simp
  let ?deg = "[pendingScene 1 5, pendingScene 2 5]"
  have ne': "?deg \<noteq> []" by simp
  have td': "(3::real) < 10" by simp
  have i': "0 = drawFrame_activeSceneIndex ?deg 3"
    by (simp add: drawFrame_activeSceneIndex_def reduce_def pendingScene_def)
  have s': "5 = startTime (?deg ! 0)" by (simp add: pendingScene_def)
  have e': "5 = (if Suc 0 < length ?deg then startTime (?deg ! Suc 0) else 10)"
    by (simp add: pendingScene_def)
  from drawFrame_sceneProgress [OF ne' td' i' s' e']
  obtain q where q: "drawFrame ?deg 10 3 = Drawn 0 (Fin q)"
      "(5::real) = 5 \<longrightarrow>
         (0::nat) = 0 \<and> (\<forall>j<length ?deg. 3 < startTime (?deg ! j)) \<and> 3 < (5::real) \<and>
         js_div (3 - 5) (5 - 5) = NegInf \<and> q = 0"
    by blast
  from q have zero: "drawFrame ?deg 10 3 = Drawn 0 (Fin 0)" by simp
  from q(2) have minus_infinity: "js_div (3 - 5) (5 - 5) = NegInf" by simp
  from p(1) quarter later mono zero minus_infinity show ?thesis by simp
qed

text \<open>
  Two scenes that both start at 5, a duration of 10, the frame at time 3: the first scene
  is active, its window has zero length, and its progress is 0, not 1.
\<close>

theorem drawFrame_sceneProgress_zero_length_counterexample:
  "drawFrame_activeSceneIndex [pendingScene 1 5, pendingScene 2 5] 3 = 0 \<and>
   nextStartTime [pendingScene 1 5, pendingScene 2 5] 10 0 =
     startTime ([pendingScene 1 5, pendingScene 2 5] ! 0) \<and>
   drawFrame [pendingScene 1 5, pendingScene 2 5] 10 3 = Drawn 0 (Fin 0) \<and>
   sceneProgress [pendingScene 1 5, pendingScene 2 5] 10 0 3 \<noteq> Fin 1"
  by (simp add: drawFrame_def drawFrame_activeSceneIndex_def reduce_def pendingScene_def
        sceneProgress_def nextStartTime_def js_div_def)

text \<open>
  C7. The zoom factor of the renderer is \<open>1 + 0.25 * p\<close> at an even position and
  \<open>1.25 - 0.25 * p\<close> at an odd one, so it is the same for two positions of the same
  parity; at \<open>p = 0.5\<close> it is 1.125 for both parities, and at \<open>p = 0.2\<close> it is
  1.05 at an even and 1.20 at an odd position.
\<close>

theorem drawFrame_scale_parity:
  "drawFrame_scale i p = (if even i then 1 + 0.25 * p else 1.25 - 0.25 * p) \<and>
   (i mod 2 = j mod 2 \<longrightarrow> drawFrame_scale i p = drawFrame_scale j p) \<and>
   drawFrame_scale (2 * m) 0.5 = 1.125 \<and> drawFrame_scale (2 * m + 1) 0.5 = 1.125 \<and>
   drawFrame_scale (2 * m) 0.2 = 1.05 \<and> drawFrame_scale (2 * m + 1) 0.2 = 1.20"
  by (simp add: drawFrame_scale_def even_iff_mod_2_eq_zero)

text \<open>
  The positions 4 and 10 at the progress 0.3.
\<close>

theorem drawFrame_scale_parity_witness:
  "(4::nat) mod 2 = 10 mod 2 \<and> drawFrame_scale 4 0.3 = drawFrame_scale 10 0.3 \<and>
   drawFrame_scale 4 0.3 = 1.075"
  using drawFrame_scale_parity [of 4 "0.3" 10 0] by simp

section \<open>Properties of the even redistribution\<close>

lemma length_map_from: "length (map_from f k xs) = length xs"
  by (induction xs arbitrary: k) simp_all

lemma nth_map_from: "i < length xs \<Longrightarrow> map_from f k xs ! i = f (xs ! i) (k + i)"
proof (induction xs arbitrary: k i)
  case Nil
  then show ?case by simp
next
  case (Cons x xs)
  then show ?case by (cases i) simp_all
qed

lemma greatest_qualifying_unique:
  "greatest_qualifying xs t r \<Longrightarrow> greatest_qualifying xs t r' \<Longrightarrow> r = r'"
  unfolding greatest_qualifying_def by (meson le_antisym)

text \<open>
  The rounding: its error is at most half the spacing of the doubles, and the multiples
  of the spacing are left as they are.
\<close>

lemma roundTiesToEven_error: "\<bar>of_int (roundTiesToEven z) - z\<bar> \<le> 1 / 2"
  unfolding roundTiesToEven_def Let_def by (auto simp: abs_le_iff)

lemma roundTiesToEven_of_int: "roundTiesToEven (of_int k) = k"
  by (simp add: roundTiesToEven_def)

lemma roundTiesToEven_ge_floor: "\<lfloor>z\<rfloor> \<le> roundTiesToEven z"
  by (simp add: roundTiesToEven_def Let_def)

lemma ulp_exponent_mono:
  assumes "0 < x" "x \<le> y"
  shows "ulp_exponent x \<le> ulp_exponent y"
proof -
  from assms have "log 2 \<bar>x\<bar> \<le> log 2 \<bar>y\<bar>" by simp
  then have "\<lfloor>log 2 \<bar>x\<bar>\<rfloor> \<le> \<lfloor>log 2 \<bar>y\<bar>\<rfloor>" by (rule floor_mono)
  then show ?thesis by (simp add: ulp_exponent_def)
qed

lemma ulp_exponent_lower: "- 1074 \<le> ulp_exponent x"
  by (simp add: ulp_exponent_def)

lemma two_powi_floor_log:
  assumes "0 < y"
  shows "(2::real) powi \<lfloor>log 2 y\<rfloor> \<le> y"
proof -
  have "(2::real) powr (of_int \<lfloor>log 2 y\<rfloor>) \<le> 2 powr (log 2 y)"
    by (simp add: powr_le_cancel_iff)
  also have "\<dots> = y" using assms by simp
  finally show ?thesis by (simp add: powr_real_of_int')
qed

text \<open>The spacing of the doubles around a positive number, against the number.\<close>

lemma ulp_le_scaled:
  assumes "0 < y" "- 1022 \<le> \<lfloor>log 2 y\<rfloor>"
  shows "(2::real) powi ulp_exponent y \<le> y * 2 powi (- 52)"
proof -
  from assms have e: "ulp_exponent y = \<lfloor>log 2 y\<rfloor> + (- 52)"
    by (simp add: ulp_exponent_def)
  have "(2::real) powi ulp_exponent y = 2 powi \<lfloor>log 2 y\<rfloor> * 2 powi (- 52)"
    unfolding e by (rule power_int_add) simp
  also have "\<dots> \<le> y * 2 powi (- 52)"
    using two_powi_floor_log [OF assms(1)] by (intro mult_right_mono) simp_all
  finally show ?thesis .
qed

lemma double_error:
  assumes "x \<noteq> 0"
  shows "\<bar>double x - x\<bar> \<le> 2 powi ulp_exponent x / 2"
proof -
  let ?u = "(2::real) powi ulp_exponent x"
  have u: "0 < ?u" by simp
  have "double x - x = (of_int (roundTiesToEven (x / ?u)) - x / ?u) * ?u"
    using assms u by (simp add: double_def algebra_simps)
  then have "\<bar>double x - x\<bar> = \<bar>of_int (roundTiesToEven (x / ?u)) - x / ?u\<bar> * ?u"
    using u by (simp add: abs_mult)
  also have "\<dots> \<le> 1 / 2 * ?u"
    using roundTiesToEven_error [of "x / ?u"] u by (intro mult_right_mono) simp_all
  finally show ?thesis by simp
qed

lemma double_on_grid:
  assumes "x = of_int k * 2 powi ulp_exponent x"
  shows "double x = x"
proof (cases "x = 0")
  case True
  then show ?thesis by (simp add: double_def)
next
  case False
  let ?u = "(2::real) powi ulp_exponent x"
  have "x / ?u = of_int k" using assms by (metis nonzero_eq_divide_eq power_int_eq_0_iff zero_neq_numeral)
  then have "roundTiesToEven (x / ?u) = k" by (simp add: roundTiesToEven_of_int)
  with False assms show ?thesis by (simp add: double_def)
qed

lemma min_subnormal_pos: "0 < min_subnormal"
  unfolding min_subnormal_def by (rule zero_less_power_int) simp

lemma min_subnormal_le_ulp: "min_subnormal \<le> 2 powi ulp_exponent x"
  unfolding min_subnormal_def by (rule power_int_increasing [OF ulp_exponent_lower]) simp

lemma ulp_subnormal:
  assumes "\<not> - 1022 \<le> \<lfloor>log 2 \<bar>y\<bar>\<rfloor>"
  shows "2 powi ulp_exponent y = min_subnormal"
proof -
  from assms have "ulp_exponent y = - 1074" by (simp add: ulp_exponent_def)
  then show ?thesis unfolding min_subnormal_def by (rule arg_cong)
qed

lemma min_normal_eq: "min_normal = 2 ^ 52 * min_subnormal"
proof -
  have "(2::real) powi (- 1022) = 2 powi (52 + (- 1074))" by (rule arg_cong) simp
  also have "\<dots> = 2 powi 52 * 2 powi (- 1074)" by (rule power_int_add) simp
  also have "(2::real) powi 52 = 2 ^ 52" by (rule power_int_numeral)
  finally show ?thesis unfolding min_normal_def min_subnormal_def .
qed

lemma two_powi_minus_52: "(2::real) ^ 52 * 2 powi (- 52) = 1"
  by (simp add: power_int_minus)

lemma ulp_le_self:
  assumes "min_subnormal \<le> z"
  shows "(2::real) powi ulp_exponent z \<le> z"
proof -
  have pos: "0 < z" using min_subnormal_pos assms by (rule less_le_trans)
  show ?thesis
  proof (cases "- 1022 \<le> \<lfloor>log 2 z\<rfloor>")
    case True
    have "(2::real) powi ulp_exponent z \<le> z * 2 powi (- 52)"
      by (rule ulp_le_scaled [OF pos True])
    also have "\<dots> \<le> z * 1"
      using pos by (intro mult_left_mono) (simp_all add: power_int_minus inverse_le_1_iff)
    finally show ?thesis by simp
  next
    case False
    with pos have "\<not> - 1022 \<le> \<lfloor>log 2 \<bar>z\<bar>\<rfloor>" by simp
    from ulp_subnormal [OF this] assms show ?thesis by (simp only:)
  qed
qed

lemma double_nonzero:
  assumes "x \<noteq> 0"
  shows "double x = of_int (roundTiesToEven (x / 2 powi ulp_exponent x)) * 2 powi ulp_exponent x"
  using assms by (simp add: double_def)

lemma double_pos:
  assumes "min_subnormal \<le> z"
  shows "min_subnormal \<le> double z"
proof -
  let ?u = "(2::real) powi ulp_exponent z"
  have pos: "0 < z" using min_subnormal_pos assms by (rule less_le_trans)
  have u: "0 < ?u" by simp
  have "1 \<le> z / ?u" using ulp_le_self [OF assms] u by (simp add: le_divide_eq)
  then have "1 \<le> \<lfloor>z / ?u\<rfloor>" by linarith
  with roundTiesToEven_ge_floor [of "z / ?u"] have "1 \<le> roundTiesToEven (z / ?u)" by linarith
  then have "(1::real) \<le> of_int (roundTiesToEven (z / ?u))" by linarith
  then have "1 * ?u \<le> of_int (roundTiesToEven (z / ?u)) * ?u"
    using u by (intro mult_right_mono) simp_all
  then have "?u \<le> double z" using pos by (simp add: double_nonzero)
  with min_subnormal_le_ulp [of z] show ?thesis by (rule order_trans)
qed

lemma ulp_le_step:
  assumes c: "min_subnormal \<le> c" and i: "real i + 1 \<le> 2 ^ 52"
  shows "(2::real) powi ulp_exponent (real (Suc i) * c) \<le> c"
proof -
  let ?y = "real (Suc i) * c"
  have cpos: "0 < c" using min_subnormal_pos c by (rule less_le_trans)
  then have ypos: "0 < ?y" by simp
  show ?thesis
  proof (cases "- 1022 \<le> \<lfloor>log 2 ?y\<rfloor>")
    case True
    have "(2::real) powi ulp_exponent ?y \<le> ?y * 2 powi (- 52)"
      by (rule ulp_le_scaled [OF ypos True])
    also have "\<dots> = (real i + 1) * (c * 2 powi (- 52))" by (simp add: algebra_simps)
    also have "\<dots> \<le> 2 ^ 52 * (c * 2 powi (- 52))"
      using i cpos by (intro mult_right_mono) simp_all
    also have "\<dots> = c" by (simp add: power_int_minus)
    finally show ?thesis .
  next
    case False
    with ypos have "\<not> - 1022 \<le> \<lfloor>log 2 \<bar>?y\<bar>\<rfloor>" by simp
    from ulp_subnormal [OF this] c show ?thesis by (simp only:)
  qed
qed

lemma double_multiple_of_later_ulp:
  assumes "0 < x" "x \<le> y" "x = real i * 2 powi ulp_exponent y"
  shows "double x = x"
proof -
  let ?ex = "ulp_exponent x" and ?ey = "ulp_exponent y"
  from ulp_exponent_mono [OF assms(1,2)] have le: "?ex \<le> ?ey" .
  then obtain n where n: "?ey - ?ex = int n" using nonneg_int_cases [of "?ey - ?ex"] by auto
  have "(2::real) powi ?ey = 2 powi (int n + ?ex)" using n by (simp add: algebra_simps)
  also have "\<dots> = 2 ^ n * 2 powi ?ex" by (simp add: power_int_add)
  finally have "x = of_int (int i * 2 ^ n) * 2 powi ?ex"
    using assms(3) by simp
  then show ?thesis by (rule double_on_grid)
qed

text \<open>
  Consecutive multiples of a positive double, up to \<open>2^52\<close> times it, round to different
  doubles: the spacing around the greater one is at most the double itself.
\<close>

lemma double_step:
  assumes c: "min_subnormal \<le> c" and i: "real i + 1 \<le> 2 ^ 52"
  shows "double (real i * c) < double (real (Suc i) * c)"
proof -
  let ?x = "real i * c" and ?y = "real (Suc i) * c"
  let ?u = "(2::real) powi ulp_exponent ?y"
  have cpos: "0 < c" using min_subnormal_pos c by (rule less_le_trans)
  have ypos: "0 < ?y" using cpos by simp
  have yx: "?y = ?x + c" by (simp add: algebra_simps)
  have uc: "?u \<le> c" by (rule ulp_le_step [OF c i])
  show ?thesis
  proof (cases "i = 0")
    case True
    from min_subnormal_pos double_pos [OF c] have "0 < double c" by (rule less_le_trans)
    with True show ?thesis by (simp add: double_def)
  next
    case False
    then have xpos: "0 < ?x" using cpos by simp
    have xy: "?x \<le> ?y" using cpos by (simp add: algebra_simps)
    show ?thesis
    proof (cases "c = ?u")
      case True
      have "?y = of_int (int (Suc i)) * ?u" using True by simp
      then have dy: "double ?y = ?y" by (rule double_on_grid)
      have "?x = real i * ?u" using True by simp
      from double_multiple_of_later_ulp [OF xpos xy this] have dx: "double ?x = ?x" .
      from dx dy yx cpos show ?thesis by simp
    next
      case False
      with uc have gt: "?u < c" by simp
      have "ulp_exponent ?x \<le> ulp_exponent ?y" by (rule ulp_exponent_mono [OF xpos xy])
      then have ux: "(2::real) powi ulp_exponent ?x \<le> ?u"
        by (intro power_int_increasing) simp_all
      from xpos have xn: "?x \<noteq> 0" by linarith
      from ypos have yn: "?y \<noteq> 0" by linarith
      have ex: "\<bar>double ?x - ?x\<bar> \<le> 2 powi ulp_exponent ?x / 2"
        by (rule double_error [OF xn])
      have ey: "\<bar>double ?y - ?y\<bar> \<le> ?u / 2"
        by (rule double_error [OF yn])
      from ex have "double ?x \<le> ?x + 2 powi ulp_exponent ?x / 2" by linarith
      also have "\<dots> \<le> ?x + ?u / 2" using ux by simp
      also have "\<dots> < ?y - ?u / 2" using gt yx by simp
      also have "\<dots> \<le> double ?y" using ey by linarith
      finally show ?thesis .
    qed
  qed
qed

lemma double_products_increasing:
  assumes c: "min_subnormal \<le> c" and n: "real n \<le> 2 ^ 52" and ij: "i < j" "j < n"
  shows "double (real i * c) < double (real j * c)"
  using ij
proof (induction j)
  case 0
  then show ?case by simp
next
  case (Suc j)
  from Suc.prems n have "real j + 1 \<le> 2 ^ 52" by simp
  from double_step [OF c this] have step: "double (real j * c) < double (real (Suc j) * c)" .
  show ?case
  proof (cases "i = j")
    case True
    with step show ?thesis by simp
  next
    case False
    with Suc.prems have "i < j" "j < n" by simp_all
    from Suc.IH [OF this] step show ?thesis by simp
  qed
qed

lemma quotient_not_underflowing:
  assumes d: "min_normal \<le> d" and n: "1 \<le> n" "real n \<le> 2 ^ 52"
  shows "min_subnormal \<le> double (d / real n)"
proof (rule double_pos)
  have npos: "0 < real n" using n(1) by simp
  have "min_subnormal * real n \<le> min_subnormal * 2 ^ 52"
    using n(2) min_subnormal_pos by (intro mult_left_mono) simp_all
  also have "\<dots> = min_normal" by (simp add: min_normal_eq)
  also have "\<dots> \<le> d" by (rule d)
  finally show "min_subnormal \<le> d / real n" using npos by (simp add: le_divide_eq)
qed

text \<open>
  The rounding of a number whose binary exponent is known.
\<close>

lemma double_eval:
  assumes "2 ^ 52 * 2 powi e \<le> \<bar>x\<bar>" "\<bar>x\<bar> < 2 ^ 53 * 2 powi e" "- 1074 \<le> e"
  shows "double x = of_int (roundTiesToEven (x / 2 powi e)) * 2 powi e"
proof -
  have xpos: "0 < \<bar>x\<bar>" using assms(1) by (rule less_le_trans [rotated]) simp
  have "(2::real) powr (real_of_int (e + 52)) = 2 powi (e + 52)"
    by (rule powr_real_of_int') simp_all
  also have "\<dots> = 2 powi e * 2 powi 52" by (rule power_int_add) simp
  finally have lo: "(2::real) powr (real_of_int (e + 52)) = 2 ^ 52 * 2 powi e" by simp
  have "e + 52 + 1 = e + 53" by simp
  then have "(2::real) powr (real_of_int (e + 52 + 1)) = 2 powr (real_of_int (e + 53))"
    by (simp only:)
  also have "\<dots> = 2 powi (e + 53)" by (rule powr_real_of_int') simp_all
  also have "\<dots> = 2 powi e * 2 powi 53" by (rule power_int_add) simp
  finally have hi: "(2::real) powr (real_of_int (e + 52 + 1)) = 2 ^ 53 * 2 powi e" by simp
  have bounds: "2 powr (real_of_int (e + 52)) \<le> \<bar>x\<bar> \<and>
                \<bar>x\<bar> < 2 powr (real_of_int (e + 52 + 1))"
    unfolding lo hi using assms(1,2) by (rule conjI)
  have one: "(1::real) < 2" by simp
  have "\<lfloor>log 2 \<bar>x\<bar>\<rfloor> = e + 52"
    using floor_log_eq_powr_iff [OF xpos one, of "e + 52"] bounds by (rule iffD2)
  with assms(3) have "ulp_exponent x = e" by (simp add: ulp_exponent_def)
  with xpos show ?thesis by (auto simp: double_def)
qed

lemma double_fifth: "double (1 / 5) = 3602879701896397 / 2 ^ 54"
proof -
  have "double (1 / 5) = of_int (roundTiesToEven ((1 / 5) / 2 powi (- 55))) * 2 powi (- 55)"
    by (rule double_eval) (simp_all add: power_int_minus)
  also have "roundTiesToEven ((1 / 5) / 2 powi (- 55)) = 7205759403792794"
    by (simp add: roundTiesToEven_def power_int_minus Let_def)
  finally show ?thesis by (simp add: power_int_minus)
qed

lemma double_three: "double 3 = 3"
proof -
  have "double 3 = of_int (roundTiesToEven (3 / 2 powi (- 51))) * 2 powi (- 51)"
    by (rule double_eval) (simp_all add: power_int_minus)
  also have "roundTiesToEven (3 / 2 powi (- 51)) = 6755399441055744"
    by (simp add: roundTiesToEven_def power_int_minus Let_def)
  finally show ?thesis by (simp add: power_int_minus)
qed

lemma double_three_fifths: "double (3 / 5) = 5404319552844595 / 2 ^ 53"
proof -
  have "double (3 / 5) = of_int (roundTiesToEven ((3 / 5) / 2 powi (- 53))) * 2 powi (- 53)"
    by (rule double_eval) (simp_all add: power_int_minus)
  also have "roundTiesToEven ((3 / 5) / 2 powi (- 53)) = 5404319552844595"
    by (simp add: roundTiesToEven_def power_int_minus Let_def)
  finally show ?thesis by (simp add: power_int_minus)
qed

lemma double_one_fifth: "double (1 * (3602879701896397 / 2 ^ 54)) = 3602879701896397 / 2 ^ 54"
proof -
  have "double (3602879701896397 / 2 ^ 54) =
      of_int (roundTiesToEven ((3602879701896397 / 2 ^ 54) / 2 powi (- 55))) * 2 powi (- 55)"
    by (rule double_eval) (simp_all add: power_int_minus)
  also have "roundTiesToEven ((3602879701896397 / 2 ^ 54) / 2 powi (- 55)) = 7205759403792794"
    by (simp add: roundTiesToEven_def power_int_minus Let_def)
  finally show ?thesis by (simp add: power_int_minus)
qed

lemma double_two_fifths: "double (2 * (3602879701896397 / 2 ^ 54)) = 3602879701896397 / 2 ^ 53"
proof -
  have "double (2 * (3602879701896397 / 2 ^ 54)) =
      of_int (roundTiesToEven ((2 * (3602879701896397 / 2 ^ 54)) / 2 powi (- 54))) * 2 powi (- 54)"
    by (rule double_eval) (simp_all add: power_int_minus)
  also have "roundTiesToEven ((2 * (3602879701896397 / 2 ^ 54)) / 2 powi (- 54)) = 7205759403792794"
    by (simp add: roundTiesToEven_def power_int_minus Let_def)
  finally show ?thesis by (simp add: power_int_minus)
qed

lemma double_three_times_fifth:
  "double (3 * (3602879701896397 / 2 ^ 54)) = 5404319552844596 / 2 ^ 53"
proof -
  have "double (3 * (3602879701896397 / 2 ^ 54)) =
      of_int (roundTiesToEven ((3 * (3602879701896397 / 2 ^ 54)) / 2 powi (- 53))) * 2 powi (- 53)"
    by (rule double_eval) (simp_all add: power_int_minus)
  also have "roundTiesToEven ((3 * (3602879701896397 / 2 ^ 54)) / 2 powi (- 53)) = 5404319552844596"
    by (simp add: roundTiesToEven_def power_int_minus Let_def)
  finally show ?thesis by (simp add: power_int_minus)
qed

lemma double_four_fifths: "double (4 * (3602879701896397 / 2 ^ 54)) = 3602879701896397 / 2 ^ 52"
proof -
  have "double (4 * (3602879701896397 / 2 ^ 54)) =
      of_int (roundTiesToEven ((4 * (3602879701896397 / 2 ^ 54)) / 2 powi (- 53))) * 2 powi (- 53)"
    by (rule double_eval) (simp_all add: power_int_minus)
  also have "roundTiesToEven ((4 * (3602879701896397 / 2 ^ 54)) / 2 powi (- 53)) = 7205759403792794"
    by (simp add: roundTiesToEven_def power_int_minus Let_def)
  finally show ?thesis by (simp add: power_int_minus)
qed

lemma double_fifteen: "double 15 = 15"
proof -
  have "double 15 = of_int (roundTiesToEven (15 / 2 powi (- 49))) * 2 powi (- 49)"
    by (rule double_eval) (simp_all add: power_int_minus)
  also have "roundTiesToEven (15 / 2 powi (- 49)) = 8444249301319680"
    by (simp add: roundTiesToEven_def power_int_minus Let_def)
  finally show ?thesis by (simp add: power_int_minus)
qed

lemma min_normal_le_one: "min_normal \<le> 1"
proof -
  have "(2::real) powi (- 1022) \<le> 2 powi 0" by (rule power_int_increasing) simp_all
  then show ?thesis by (simp only: min_normal_def power_int_0_right)
qed

lemma handleAutoAlign_Some:
  "handleAutoAlign (Some p) =
     Some (p\<lparr>scenes := array_map (\<lambda>s idx. s\<lparr>startTime :=
              js_times (real idx) (js_divide (duration p) (real (length (scenes p))))\<rparr>)
            (scenes p)\<rparr>)"
  by (simp add: handleAutoAlign_def Let_def)

lemma increasing_starts_active:
  fixes xs :: "Scene list"
  assumes k: "k < length xs"
    and inc: "\<forall>j<length xs. k < j \<longrightarrow> startTime (xs ! k) < startTime (xs ! j)"
  shows "reduce (\<lambda>b s idx. if startTime s \<le> startTime (xs ! k) then idx else b) 0 xs = k"
proof -
  have top: "\<forall>i<length xs. startTime (xs ! i) \<le> startTime (xs ! k) \<longrightarrow> i \<le> k"
  proof (intro allI impI)
    fix i assume i: "i < length xs" and le: "startTime (xs ! i) \<le> startTime (xs ! k)"
    show "i \<le> k"
    proof (rule ccontr)
      assume "\<not> i \<le> k"
      then have "k < i" by simp
      with inc i have "startTime (xs ! k) < startTime (xs ! i)" by blast
      with le show False by simp
    qed
  qed
  have gk: "greatest_qualifying xs (startTime (xs ! k)) k"
    using k top by (simp add: greatest_qualifying_def)
  have "\<exists>i<length xs. startTime (xs ! i) \<le> startTime (xs ! k)" using k by blast
  from active_some [OF this] gk show ?thesis by (rule greatest_qualifying_unique)
qed

text \<open>
  C6 (amended). For a project of \<open>n\<close> scenes, \<open>1 \<le> n \<le> 2^52\<close>, and a duration
  \<open>d\<close> that is at least the smallest positive normal double, \<^verbatim>\<open>handleAutoAlign\<close> sets
  the start of the scene at every position \<open>i\<close> to the double \<open>i * (d / n)\<close>, the
  quotient rounded first and then the product, and changes nothing else; then the
  player and the renderer resolve the time \<open>k * (d / n)\<close>, rounded in the same two
  steps, to the position \<open>k\<close>, for every \<open>k < n\<close>. The time \<open>k * d / n\<close>, the
  product rounded first and then the quotient, can be a smaller double, see the
  counterexample below.
\<close>

theorem handleAutoAlign_inverted_by_resolver:
  assumes n: "n = length (scenes p)" "1 \<le> n" "real n \<le> 2 ^ 52"
    and d: "d = duration p" "min_normal \<le> d"
  shows "\<exists>p'. handleAutoAlign (Some p) = Some p' \<and>
           length (scenes p') = n \<and> duration p' = d \<and> audioBuffer p' = audioBuffer p \<and>
           (\<forall>i<n. scenes p' ! i =
                    (scenes p ! i)\<lparr>startTime := js_times (real i) (js_divide d (real n))\<rparr>) \<and>
           (\<forall>k<n. drawFrame_activeSceneIndex (scenes p')
                     (js_times (real k) (js_divide d (real n))) = k \<and>
                   Player_activeSceneIndex (scenes p')
                     (js_times (real k) (js_divide d (real n))) = k)"
proof -
  define c where "c = js_divide d (real n)"
  define p' where "p' = p\<lparr>scenes :=
      array_map (\<lambda>s idx. s\<lparr>startTime := js_times (real idx) c\<rparr>) (scenes p)\<rparr>"
  have run: "handleAutoAlign (Some p) = Some p'"
    by (simp add: handleAutoAlign_Some p'_def c_def n d)
  have len: "length (scenes p') = n"
    by (simp add: p'_def array_map_def length_map_from n)
  have nth: "\<forall>i<n. scenes p' ! i = (scenes p ! i)\<lparr>startTime := js_times (real i) c\<rparr>"
    by (simp add: p'_def array_map_def nth_map_from n)
  have st: "\<forall>i<n. startTime (scenes p' ! i) = double (real i * c)"
    using nth by (simp add: js_times_def)
  have cpos: "min_subnormal \<le> c"
    unfolding c_def js_divide_def by (rule quotient_not_underflowing [OF d(2) n(2,3)])
  have res: "\<forall>k<n. drawFrame_activeSceneIndex (scenes p') (js_times (real k) c) = k \<and>
                   Player_activeSceneIndex (scenes p') (js_times (real k) c) = k"
  proof (intro allI impI)
    fix k assume kn: "k < n"
    then have k: "k < length (scenes p')" using len by simp
    have inc: "\<forall>j<length (scenes p').
                 k < j \<longrightarrow> startTime (scenes p' ! k) < startTime (scenes p' ! j)"
    proof (intro allI impI)
      fix j assume j: "j < length (scenes p')" and kj: "k < j"
      from j len have jn: "j < n" by simp
      from double_products_increasing [OF cpos n(3) kj jn] st kn jn
      show "startTime (scenes p' ! k) < startTime (scenes p' ! j)" by simp
    qed
    have tk: "startTime (scenes p' ! k) = js_times (real k) c"
      using st kn by (simp add: js_times_def)
    from increasing_starts_active [OF k inc]
    have "reduce (\<lambda>b s idx. if startTime s \<le> js_times (real k) c then idx else b) 0
            (scenes p') = k"
      unfolding tk .
    then show "drawFrame_activeSceneIndex (scenes p') (js_times (real k) c) = k \<and>
                   Player_activeSceneIndex (scenes p') (js_times (real k) c) = k"
      unfolding drawFrame_activeSceneIndex_def Player_activeSceneIndex_def by simp
  qed
  have dur: "duration p' = d" and buf: "audioBuffer p' = audioBuffer p"
    by (simp_all add: p'_def d)
  from run len dur buf nth res show ?thesis
    unfolding c_def by (intro exI [of _ p'] conjI)
qed

lemma fifth_of_second: "js_divide 1 (real 5) = 3602879701896397 / 2 ^ 54"
  by (simp only: js_divide_def of_nat_numeral double_fifth)

lemma aligned_start_0: "js_times (real 0) (js_divide 1 (real 5)) = 0"
  by (simp add: js_times_def double_def)

lemma aligned_start_1:
  "js_times (real (Suc 0)) (js_divide 1 (real 5)) = 3602879701896397 / 2 ^ 54"
proof -
  have "real (Suc 0) = 1" by simp
  then show ?thesis by (simp only: fifth_of_second js_times_def double_one_fifth)
qed

lemma aligned_start_2:
  "js_times (real (Suc (Suc 0))) (js_divide 1 (real 5)) = 3602879701896397 / 2 ^ 53"
proof -
  have "real (Suc (Suc 0)) = 2" by simp
  then show ?thesis by (simp only: fifth_of_second js_times_def double_two_fifths)
qed

lemma aligned_start_3:
  "js_times (real (Suc (Suc (Suc 0)))) (js_divide 1 (real 5)) = 5404319552844596 / 2 ^ 53"
proof -
  have "real (Suc (Suc (Suc 0))) = 3" by simp
  then show ?thesis by (simp only: fifth_of_second js_times_def double_three_times_fifth)
qed

lemma aligned_start_4:
  "js_times (real (Suc (Suc (Suc (Suc 0))))) (js_divide 1 (real 5)) = 3602879701896397 / 2 ^ 52"
proof -
  have "real (Suc (Suc (Suc (Suc 0)))) = 4" by simp
  then show ?thesis by (simp only: fifth_of_second js_times_def double_four_fifths)
qed

lemma five_scenes_aligned: "handleAutoAlign (Some five_scenes) = Some five_aligned"
proof -
  have l: "length (scenes five_scenes) = 5" and du: "duration five_scenes = 1"
    by (simp_all add: five_scenes_def)
  have "array_map (\<lambda>s idx. s\<lparr>startTime := js_times (real idx) (js_divide 1 (real 5))\<rparr>)
          [a0, a1, a2, a3, a4] =
        [a0\<lparr>startTime := 0\<rparr>, a1\<lparr>startTime := 3602879701896397 / 2 ^ 54\<rparr>,
         a2\<lparr>startTime := 3602879701896397 / 2 ^ 53\<rparr>,
         a3\<lparr>startTime := 5404319552844596 / 2 ^ 53\<rparr>,
         a4\<lparr>startTime := 3602879701896397 / 2 ^ 52\<rparr>]" for a0 a1 a2 a3 a4 :: Scene
    by (simp only: array_map_def map_from.simps aligned_start_0 aligned_start_1
          aligned_start_2 aligned_start_3 aligned_start_4)
  then have "array_map (\<lambda>s idx. s\<lparr>startTime := js_times (real idx) (js_divide 1 (real 5))\<rparr>)
          (scenes five_scenes) = scenes five_aligned"
    by (simp add: five_scenes_def five_aligned_def pendingScene_def)
  then have "handleAutoAlign (Some five_scenes) =
      Some (five_scenes\<lparr>scenes := scenes five_aligned\<rparr>)"
    by (simp only: handleAutoAlign_Some l du)
  also have "five_scenes\<lparr>scenes := scenes five_aligned\<rparr> = five_aligned"
    by (simp add: five_scenes_def five_aligned_def)
  finally show ?thesis .
qed

text \<open>
  Five scenes over one second: the redistribution gives the starts 0, 0.2, 0.4,
  0.6000000000000001 and 0.8, and the rounded \<open>3 * (1 / 5)\<close> resolves to the position 3.
\<close>

theorem handleAutoAlign_inverted_by_resolver_witness:
  "handleAutoAlign (Some five_scenes) = Some five_aligned \<and>
   drawFrame_activeSceneIndex (scenes five_aligned) (js_times 3 (js_divide 1 5)) = 3 \<and>
   Player_activeSceneIndex (scenes five_aligned) (js_times 3 (js_divide 1 5)) = 3"
proof -
  have n: "5 = length (scenes five_scenes)" "1 \<le> (5::nat)" "real 5 \<le> 2 ^ 52"
    by (simp_all add: five_scenes_def)
  have d: "1 = duration five_scenes" "min_normal \<le> 1"
    by (simp add: five_scenes_def) (rule min_normal_le_one)
  from handleAutoAlign_inverted_by_resolver [OF n d]
  obtain p' where p': "handleAutoAlign (Some five_scenes) = Some p'"
    "\<forall>k<5. drawFrame_activeSceneIndex (scenes p') (js_times (real k) (js_divide 1 (real 5))) = k \<and>
            Player_activeSceneIndex (scenes p') (js_times (real k) (js_divide 1 (real 5))) = k"
    by blast
  from p'(1) five_scenes_aligned have eq: "p' = five_aligned" by simp
  from p'(2) [rule_format, of 3] eq five_scenes_aligned show ?thesis by simp
qed

text \<open>
  The same five scenes: the rounded \<open>3 * 1 / 5\<close> is the double 0.6, below the start
  0.6000000000000001 of the scene at position 3, and resolves to the position 2.
\<close>

theorem handleAutoAlign_rounded_query_counterexample:
  "handleAutoAlign (Some five_scenes) = Some five_aligned \<and>
   drawFrame_activeSceneIndex (scenes five_aligned)
     (js_divide (js_times 3 (duration five_scenes)) (real (length (scenes five_scenes)))) = 2 \<and>
   Player_activeSceneIndex (scenes five_aligned)
     (js_divide (js_times 3 (duration five_scenes)) (real (length (scenes five_scenes)))) = 2"
proof -
  have q: "js_divide (js_times 3 (duration five_scenes)) (real (length (scenes five_scenes)))
             = 5404319552844595 / 2 ^ 53"
    by (simp add: five_scenes_def js_divide_def js_times_def double_three double_three_fifths)
  have "drawFrame_activeSceneIndex (scenes five_aligned) (5404319552844595 / 2 ^ 53) = 2"
    by (simp add: drawFrame_activeSceneIndex_def reduce_def five_aligned_def pendingScene_def)
  moreover have "Player_activeSceneIndex (scenes five_aligned) (5404319552844595 / 2 ^ 53) = 2"
    by (simp add: Player_activeSceneIndex_def reduce_def five_aligned_def pendingScene_def)
  ultimately show ?thesis using five_scenes_aligned unfolding q by simp
qed

section \<open>Properties of the sequential generation\<close>

lemma map_from_drop:
  "i < length xs \<Longrightarrow>
     map_from f i (drop i xs) = f (xs ! i) i # map_from f (Suc i) (drop (Suc i) xs)"
  by (simp flip: Cons_nth_drop_Suc)

lemma updateScene_twice:
  "updateScene i g (updateScene i f (Some p)) =
     Some (p\<lparr>scenes := (scenes p)[i := g (f (scenes p ! i))]\<rparr>)" if "i < length (scenes p)"
  using that by (simp add: updateScene_def)

lemma generated_after_generating:
  "generated outcome (s\<lparr>status := Generating_image\<rparr>) = generated outcome s"
  by (simp add: generated_def split: option.split)

lemma generateVisuals_loop_step:
  assumes "i < length scs" "length cur = length scs"
  shows "generateVisuals_loop gen key scs i (Some (p\<lparr>scenes := cur\<rparr>), req) =
         generateVisuals_loop gen key scs (Suc i)
           (Some (p\<lparr>scenes := cur[i := generated (gen i (prompt (scs ! i)) key) (cur ! i)]\<rparr>),
            req @ [prompt (scs ! i)])"
proof -
  have il: "i < length (scenes (p\<lparr>scenes := cur\<rparr>))" using assms by simp
  show ?thesis
    using assms
    by (subst generateVisuals_loop.simps)
       (simp add: Let_def updateScene_twice [OF il] generated_def split: option.split)
qed

lemma generateVisuals_loop_run:
  assumes "length cur = length scs"
  shows "generateVisuals_loop gen key scs i (Some (p\<lparr>scenes := cur\<rparr>), req) =
         (Some (p\<lparr>scenes := take i cur @
                  map_from (\<lambda>s j. generated (gen j (prompt (scs ! j)) key) s) i (drop i cur)\<rparr>),
          req @ map prompt (drop i scs))"
  using assms
proof (induction "length scs - i" arbitrary: i cur req)
  case 0
  then have "\<not> i < length scs" by simp
  with 0 show ?case by (subst generateVisuals_loop.simps) simp
next
  case (Suc m)
  then have il: "i < length scs" and m: "m = length scs - Suc i" by simp_all
  let ?v = "generated (gen i (prompt (scs ! i)) key) (cur ! i)"
  have len: "length (cur[i := ?v]) = length scs" using Suc.prems by simp
  have ic: "i < length cur" using il Suc.prems by simp
  have t: "take (Suc i) (cur[i := ?v]) = take i cur @ [?v]"
    using ic by (simp add: take_Suc_conv_app_nth)
  have d: "drop (Suc i) (cur[i := ?v]) = drop (Suc i) cur" by simp
  have "generateVisuals_loop gen key scs i (Some (p\<lparr>scenes := cur\<rparr>), req) =
        generateVisuals_loop gen key scs (Suc i)
           (Some (p\<lparr>scenes := cur[i := ?v]\<rparr>), req @ [prompt (scs ! i)])"
    by (rule generateVisuals_loop_step [OF il Suc.prems])
  also have "\<dots> = (Some (p\<lparr>scenes := take (Suc i) (cur[i := ?v]) @
                  map_from (\<lambda>s j. generated (gen j (prompt (scs ! j)) key) s) (Suc i)
                    (drop (Suc i) (cur[i := ?v]))\<rparr>),
          (req @ [prompt (scs ! i)]) @ map prompt (drop (Suc i) scs))"
    by (rule Suc.hyps(1) [OF m len])
  also have "\<dots> = (Some (p\<lparr>scenes := take i cur @
                  map_from (\<lambda>s j. generated (gen j (prompt (scs ! j)) key) s) i (drop i cur)\<rparr>),
          req @ map prompt (drop i scs))"
    using il ic by (simp add: t d map_from_drop flip: Cons_nth_drop_Suc [of i scs])
  finally show ?case .
qed

lemma generateVisuals_run:
  "generateVisuals gen p key (Some p) =
     (Some (p\<lparr>scenes := array_map (\<lambda>s j. generated (gen j (prompt (scenes p ! j)) key) s)
                           (scenes p)\<rparr>),
      map prompt (scenes p))"
  using generateVisuals_loop_run [of "scenes p" "scenes p" gen key 0 p "[]"]
  by (simp add: generateVisuals_def array_map_def)

text \<open>
  C9. Started on the project it is given, \<^verbatim>\<open>generateVisuals\<close> requests an image for
  every scene, in array order, whatever the outcomes of the requests; a scene whose
  request succeeds ends with the image and the status ready, a scene whose request fails
  ends with the status error and is otherwise as before; so the end state of a scene
  depends on its own request only. The rest of the project is unchanged.
\<close>

theorem generateVisuals_contains_failures:
  "\<exists>p'. generateVisuals gen p key (Some p) = (Some p', map prompt (scenes p)) \<and>
         length (scenes p') = length (scenes p) \<and>
         audioBuffer p' = audioBuffer p \<and> duration p' = duration p \<and>
         (\<forall>i<length (scenes p).
            (\<forall>url. gen i (prompt (scenes p ! i)) key = Some url \<longrightarrow>
               scenes p' ! i = (scenes p ! i)\<lparr>imageUrl := Some url, status := Ready\<rparr>) \<and>
            (gen i (prompt (scenes p ! i)) key = None \<longrightarrow>
               scenes p' ! i = (scenes p ! i)\<lparr>status := Error\<rparr>))"
proof -
  define p' where "p' = p\<lparr>scenes :=
      array_map (\<lambda>s j. generated (gen j (prompt (scenes p ! j)) key) s) (scenes p)\<rparr>"
  have run: "generateVisuals gen p key (Some p) = (Some p', map prompt (scenes p))"
    by (simp add: generateVisuals_run p'_def)
  have len: "length (scenes p') = length (scenes p)"
    by (simp add: p'_def array_map_def length_map_from)
  have rest: "audioBuffer p' = audioBuffer p" "duration p' = duration p"
    by (simp_all add: p'_def)
  have each: "\<forall>i<length (scenes p).
            (\<forall>url. gen i (prompt (scenes p ! i)) key = Some url \<longrightarrow>
               scenes p' ! i = (scenes p ! i)\<lparr>imageUrl := Some url, status := Ready\<rparr>) \<and>
            (gen i (prompt (scenes p ! i)) key = None \<longrightarrow>
               scenes p' ! i = (scenes p ! i)\<lparr>status := Error\<rparr>)"
    by (simp add: p'_def array_map_def nth_map_from generated_def)
  from run len rest each show ?thesis
    by (intro exI [of _ p'] conjI)
qed

text \<open>
  Three scenes, the second request fails: three requests are made, the first and the
  third scene are ready, the second has the status error.
\<close>

theorem generateVisuals_contains_failures_witness:
  "\<exists>p'. generateVisuals failing_second (timeline 0 10 20) ''k'' (Some (timeline 0 10 20)) =
           (Some p', [''p'', ''p'', ''p'']) \<and>
         scenes p' ! 0 = (pendingScene 1 0)\<lparr>imageUrl := Some ''img:p'', status := Ready\<rparr> \<and>
         scenes p' ! 1 = (pendingScene 2 10)\<lparr>status := Error\<rparr> \<and>
         scenes p' ! 2 = (pendingScene 3 20)\<lparr>imageUrl := Some ''img:p'', status := Ready\<rparr>"
proof -
  let ?p = "timeline 0 10 20"
  from generateVisuals_contains_failures [of failing_second ?p "''k''"]
  obtain p' where run: "generateVisuals failing_second ?p ''k'' (Some ?p) =
      (Some p', map prompt (scenes ?p))"
    and each: "\<forall>i<length (scenes ?p).
            (\<forall>url. failing_second i (prompt (scenes ?p ! i)) ''k'' = Some url \<longrightarrow>
               scenes p' ! i = (scenes ?p ! i)\<lparr>imageUrl := Some url, status := Ready\<rparr>) \<and>
            (failing_second i (prompt (scenes ?p ! i)) ''k'' = None \<longrightarrow>
               scenes p' ! i = (scenes ?p ! i)\<lparr>status := Error\<rparr>)"
    by blast
  have l: "(0::nat) < length (scenes ?p)" "(1::nat) < length (scenes ?p)"
    "(2::nat) < length (scenes ?p)" by (simp_all add: timeline_def)
  have o: "failing_second 0 (prompt (scenes ?p ! 0)) ''k'' = Some ''img:p''"
    "failing_second 1 (prompt (scenes ?p ! 1)) ''k'' = None"
    "failing_second 2 (prompt (scenes ?p ! 2)) ''k'' = Some ''img:p''"
    by (simp_all add: failing_second_def timeline_def pendingScene_def)
  have s: "scenes ?p ! 0 = pendingScene 1 0" "scenes ?p ! 1 = pendingScene 2 10"
    "scenes ?p ! 2 = pendingScene 3 20" by (simp_all add: timeline_def)
  have m: "map prompt (scenes ?p) = [''p'', ''p'', ''p'']"
    by (simp add: timeline_def pendingScene_def)
  from each [rule_format, OF l(1)] o(1) s(1)
  have a: "scenes p' ! 0 = (pendingScene 1 0)\<lparr>imageUrl := Some ''img:p'', status := Ready\<rparr>"
    by simp
  from each [rule_format, OF l(2)] o(2) s(2)
  have b: "scenes p' ! 1 = (pendingScene 2 10)\<lparr>status := Error\<rparr>" by simp
  from each [rule_format, OF l(3)] o(3) s(3)
  have c: "scenes p' ! 2 = (pendingScene 3 20)\<lparr>imageUrl := Some ''img:p'', status := Ready\<rparr>"
    by simp
  from run m a b c show ?thesis by (intro exI [of _ p'] conjI) simp_all
qed

section \<open>Properties of the project creation\<close>

lemma initializeProject_error_None:
  assumes "error (initializeProject dec promptsInput scriptInput audioFile apiKey st) = None"
  shows "\<exists>file buffer. audioFile = Some file \<and> dec file = Inr buffer \<and>
           trim promptsInput \<noteq> [] \<and> trim scriptInput \<noteq> [] \<and> apiKey \<noteq> [] \<and>
           length (filter (\<lambda>line. trim line \<noteq> []) (split_lines promptsInput)) =
           length (filter (\<lambda>line. trim line \<noteq> []) (split_lines scriptInput))"
  using assms
  by (auto simp: initializeProject_def Let_def split: option.splits if_splits sum.splits)

lemma initializeProject_success:
  assumes "audioFile = Some file" "dec file = Inr buffer"
    "trim promptsInput \<noteq> []" "trim scriptInput \<noteq> []" "apiKey \<noteq> []"
    "prompts = filter (\<lambda>line. trim line \<noteq> []) (split_lines promptsInput)"
    "scripts = filter (\<lambda>line. trim line \<noteq> []) (split_lines scriptInput)"
    "length prompts = length scripts"
  shows "initializeProject dec promptsInput scriptInput audioFile apiKey st =
     st\<lparr>project := Some
           \<lparr>scenes = array_map (\<lambda>prompt' idx.
               \<lparr>scene_id = idx + 1, prompt = trim prompt',
                script = trim (scripts ! idx), status = Pending,
                startTime = js_times (real idx)
                  (js_divide (buffer_duration buffer) (real (length prompts))),
                imageUrl = None\<rparr>) prompts,
            audioBuffer = buffer, duration = buffer_duration buffer\<rparr>,
        error := None, isGenerating := False\<rparr>"
  using assms by (simp add: initializeProject_def Let_def)

lemma initializeProject_mismatch:
  assumes "audioFile \<noteq> None"
    "trim promptsInput \<noteq> []" "trim scriptInput \<noteq> []" "apiKey \<noteq> []"
    "prompts = filter (\<lambda>line. trim line \<noteq> []) (split_lines promptsInput)"
    "scripts = filter (\<lambda>line. trim line \<noteq> []) (split_lines scriptInput)"
    "length prompts \<noteq> length scripts"
  shows "initializeProject dec promptsInput scriptInput audioFile apiKey st =
     st\<lparr>project := None, error := Some (Mismatch (length prompts) (length scripts)),
        isGenerating := False\<rparr>"
  using assms by (auto simp: initializeProject_def Let_def split: option.splits)

lemma initializeProject_no_project:
  assumes "length (filter (\<lambda>line. trim line \<noteq> []) (split_lines promptsInput)) \<noteq>
           length (filter (\<lambda>line. trim line \<noteq> []) (split_lines scriptInput))"
  shows "error (initializeProject dec promptsInput scriptInput audioFile apiKey st) \<noteq> None \<and>
         (project (initializeProject dec promptsInput scriptInput audioFile apiKey st) = None \<or>
          project (initializeProject dec promptsInput scriptInput audioFile apiKey st) = project st)"
  using assms by (auto simp: initializeProject_def Let_def split: option.splits)

lemma initializeProject_example:
  assumes "apiKey \<noteq> []"
  shows "initializeProject dec [CHR ''a'', CHR 0x0A, CHR ''b''] ''x'' (Some audio) apiKey st =
     st\<lparr>project := None, error := Some (Mismatch 2 1), isGenerating := False\<rparr>"
  using assms by (simp add: initializeProject_def trim_def isWhiteSpace_def Let_def)

text \<open>
  C4 (amended). Let \<open>prompts\<close> and \<open>scripts\<close> be the non-blank lines of the two text
  boxes. When both boxes hold a non-blank line, an audio file is chosen and the key is
  set, \<^verbatim>\<open>initializeProject\<close> fails with the mismatch error of the two counts when they
  differ, and clears the project. Under any inputs, differing counts end with some error
  set and no project built: the project is cleared or left as it was. When it ends with
  no error, the audio was decoded to
  a buffer of duration \<open>d\<close>, the counts are the same \<open>n\<close>, and the project has exactly
  \<open>n\<close> scenes, the one at position \<open>i\<close> with the double \<open>i * (d / n)\<close> as its
  start (the quotient rounded first, then the product), the trimmed prompt and script
  line \<open>i\<close> and the status pending. The prompts a, b with the script
  x, an audio file and a key, fail with the mismatch of 2 and 1, and no project.
\<close>

theorem initializeProject_mismatch_or_even_scenes:
  assumes p: "prompts = filter (\<lambda>line. trim line \<noteq> []) (split_lines promptsInput)"
    and s: "scripts = filter (\<lambda>line. trim line \<noteq> []) (split_lines scriptInput)"
    and r: "st' = initializeProject dec promptsInput scriptInput audioFile apiKey st"
  shows "(length prompts \<noteq> length scripts \<longrightarrow>
            error st' \<noteq> None \<and> (project st' = None \<or> project st' = project st)) \<and>
         (length prompts \<noteq> length scripts \<and> audioFile \<noteq> None \<and> trim promptsInput \<noteq> [] \<and>
            trim scriptInput \<noteq> [] \<and> apiKey \<noteq> [] \<longrightarrow>
            error st' = Some (Mismatch (length prompts) (length scripts)) \<and> project st' = None) \<and>
         (error st' = None \<longrightarrow>
            (\<exists>file buffer pr. audioFile = Some file \<and> dec file = Inr buffer \<and>
               project st' = Some pr \<and> duration pr = buffer_duration buffer \<and>
               length prompts = length scripts \<and> length (scenes pr) = length prompts \<and>
               (\<forall>i<length prompts.
                  startTime (scenes pr ! i) =
                    js_times (real i)
                      (js_divide (buffer_duration buffer) (real (length prompts))) \<and>
                  prompt (scenes pr ! i) = trim (prompts ! i) \<and>
                  script (scenes pr ! i) = trim (scripts ! i) \<and>
                  status (scenes pr ! i) = Pending))) \<and>
         (apiKey \<noteq> [] \<longrightarrow>
            initializeProject dec [CHR ''a'', CHR 0x0A, CHR ''b''] ''x'' (Some audio) apiKey st =
              st\<lparr>project := None, error := Some (Mismatch 2 1), isGenerating := False\<rparr>)"
proof (intro conjI impI)
  assume "apiKey \<noteq> []"
  then show "initializeProject dec [CHR ''a'', CHR 0x0A, CHR ''b''] ''x'' (Some audio) apiKey st =
              st\<lparr>project := None, error := Some (Mismatch 2 1), isGenerating := False\<rparr>"
    by (rule initializeProject_example)
next
  assume "length prompts \<noteq> length scripts"
  then show "error st' \<noteq> None"
    using initializeProject_no_project [of promptsInput scriptInput dec audioFile apiKey st]
    by (simp add: p s r)
next
  assume "length prompts \<noteq> length scripts"
  then show "project st' = None \<or> project st' = project st"
    using initializeProject_no_project [of promptsInput scriptInput dec audioFile apiKey st]
    by (simp add: p s r)
next
  assume h: "length prompts \<noteq> length scripts \<and> audioFile \<noteq> None \<and> trim promptsInput \<noteq> [] \<and>
            trim scriptInput \<noteq> [] \<and> apiKey \<noteq> []"
  then have "st' = st\<lparr>project := None,
        error := Some (Mismatch (length prompts) (length scripts)), isGenerating := False\<rparr>"
    unfolding r using p s by (intro initializeProject_mismatch) simp_all
  then show "error st' = Some (Mismatch (length prompts) (length scripts))"
    and "project st' = None" by simp_all
next
  assume ok: "error st' = None"
  from initializeProject_error_None [OF ok [unfolded r]]
  obtain chosen buffer where g: "audioFile = Some chosen" "dec chosen = Inr buffer"
    "trim promptsInput \<noteq> []" "trim scriptInput \<noteq> []" "apiKey \<noteq> []"
    "length prompts = length scripts"
    unfolding p s by blast
  define pr where "pr = \<lparr>scenes = array_map (\<lambda>prompt' idx.
               \<lparr>scene_id = idx + 1, prompt = trim prompt',
                script = trim (scripts ! idx), status = Pending,
                startTime = js_times (real idx)
                  (js_divide (buffer_duration buffer) (real (length prompts))),
                imageUrl = None\<rparr>) prompts,
            audioBuffer = buffer, duration = buffer_duration buffer\<rparr>"
  have "st' = st\<lparr>project := Some pr, error := None, isGenerating := False\<rparr>"
    unfolding r pr_def
    using initializeProject_success
            [of audioFile chosen dec buffer promptsInput scriptInput apiKey prompts scripts st]
          g p s
    by blast
  then have a: "project st' = Some pr" by simp
  have b: "duration pr = buffer_duration buffer" by (simp add: pr_def)
  have c: "length (scenes pr) = length prompts"
    by (simp add: pr_def array_map_def length_map_from)
  have d: "\<forall>i<length prompts.
                  startTime (scenes pr ! i) =
                    js_times (real i)
                      (js_divide (buffer_duration buffer) (real (length prompts))) \<and>
                  prompt (scenes pr ! i) = trim (prompts ! i) \<and>
                  script (scenes pr ! i) = trim (scripts ! i) \<and>
                  status (scenes pr ! i) = Pending"
    by (simp add: pr_def array_map_def nth_map_from)
  from g(1,2) a b g(6) c d
  show "\<exists>file buffer pr. audioFile = Some file \<and> dec file = Inr buffer \<and>
               project st' = Some pr \<and> duration pr = buffer_duration buffer \<and>
               length prompts = length scripts \<and> length (scenes pr) = length prompts \<and>
               (\<forall>i<length prompts.
                  startTime (scenes pr ! i) =
                    js_times (real i)
                      (js_divide (buffer_duration buffer) (real (length prompts))) \<and>
                  prompt (scenes pr ! i) = trim (prompts ! i) \<and>
                  script (scenes pr ! i) = trim (scripts ! i) \<and>
                  status (scenes pr ! i) = Pending)"
    by (intro exI [of _ chosen] exI [of _ buffer] exI [of _ pr] conjI)
qed

lemma lines_a_b: "filter (\<lambda>line. trim line \<noteq> []) (split_lines [CHR ''a'', CHR 0x0A, CHR ''b'']) = [''a'', ''b'']"
  by (simp add: trim_def isWhiteSpace_def)

lemma lines_x: "filter (\<lambda>line. trim line \<noteq> []) (split_lines ''x'') = [''x'']"
  by (simp add: trim_def isWhiteSpace_def)

lemma lines_x_y: "filter (\<lambda>line. trim line \<noteq> []) (split_lines [CHR ''x'', CHR 0x0A, CHR 0x0A, CHR ''y'', CHR 0x20]) = [''x'', ''y '']"
  by (simp add: trim_def isWhiteSpace_def)

text \<open>
  The prompts a, b with the script x: the mismatch of 2 and 1, and no project. The
  prompts a, b with the scripts x, y over thirty seconds: two scenes, starting at 0 and
  15.
\<close>

theorem initializeProject_mismatch_or_even_scenes_witness:
  "error (initializeProject thirty_seconds [CHR ''a'', CHR 0x0A, CHR ''b''] ''x'' (Some ()) ''k''
            setup_state) = Some (Mismatch 2 1) \<and>
   project (initializeProject thirty_seconds [CHR ''a'', CHR 0x0A, CHR ''b''] ''x'' (Some ()) ''k''
            setup_state) = None \<and>
   (\<exists>pr. project (initializeProject thirty_seconds [CHR ''a'', CHR 0x0A, CHR ''b'']
                   [CHR ''x'', CHR 0x0A, CHR 0x0A, CHR ''y'', CHR 0x20] (Some ()) ''k''
                   setup_state) = Some pr \<and>
         length (scenes pr) = 2 \<and>
         startTime (scenes pr ! 0) = 0 \<and> startTime (scenes pr ! 1) = 15)"
proof -
  let ?ab = "[CHR ''a'', CHR 0x0A, CHR ''b'']"
  let ?xy = "[CHR ''x'', CHR 0x0A, CHR 0x0A, CHR ''y'', CHR 0x20]"
  let ?bad = "initializeProject thirty_seconds ?ab ''x'' (Some ()) ''k'' setup_state"
  let ?good = "initializeProject thirty_seconds ?ab ?xy (Some ()) ''k'' setup_state"
  have guards: "length [''a'', ''b''] \<noteq> length [''x''] \<and> Some () \<noteq> None \<and> trim ?ab \<noteq> [] \<and>
            trim ''x'' \<noteq> [] \<and> ''k'' \<noteq> []"
    by (simp add: trim_def isWhiteSpace_def)
  from initializeProject_mismatch_or_even_scenes
         [OF lines_a_b [symmetric] lines_x [symmetric] refl,
          of thirty_seconds "Some ()" "''k''" setup_state] guards
  have bad: "error ?bad = Some (Mismatch 2 1) \<and> project ?bad = None"
    by simp
  have ok: "error ?good = None"
    by (simp add: initializeProject_def trim_def isWhiteSpace_def thirty_seconds_def
          setup_state_def Let_def)
  from initializeProject_mismatch_or_even_scenes
         [OF lines_a_b [symmetric] lines_x_y [symmetric] refl,
          of thirty_seconds "Some ()" "''k''" setup_state] ok
  obtain audio buffer pr where g: "thirty_seconds audio = Inr buffer" "project ?good = Some pr"
    "length (scenes pr) = length [''a'', ''b'']"
    "\<forall>i<length [''a'', ''b''].
        startTime (scenes pr ! i) =
          js_times (real i) (js_divide (buffer_duration buffer) (real (length [''a'', ''b''])))"
    by blast
  from g(1) have b: "buffer_duration buffer = 30" by (auto simp: thirty_seconds_def)
  from g(4) [rule_format, of 0] g(4) [rule_format, of 1] b
  have "startTime (scenes pr ! 0) = 0" "startTime (scenes pr ! 1) = 15"
    by (simp_all add: js_divide_def js_times_def double_fifteen) (simp add: double_def)
  with g(2,3) have "project ?good = Some pr \<and> length (scenes pr) = 2 \<and>
         startTime (scenes pr ! 0) = 0 \<and> startTime (scenes pr ! 1) = 15" by simp
  then have "\<exists>pr. project ?good = Some pr \<and> length (scenes pr) = 2 \<and>
         startTime (scenes pr ! 0) = 0 \<and> startTime (scenes pr ! 1) = 15" by (rule exI)
  with bad show ?thesis by simp
qed

text \<open>
  The prompt a with a blank script box, an audio file and a key: the counts 1 and 0
  differ, and the error is the one of the first check of the inputs, not the mismatch.
\<close>

theorem initializeProject_blank_script_counterexample:
  "length (filter (\<lambda>line. trim line \<noteq> []) (split_lines ''a'')) = 1 \<and>
   length (filter (\<lambda>line. trim line \<noteq> []) (split_lines [])) = 0 \<and>
   error (initializeProject thirty_seconds ''a'' [] (Some ()) ''k'' setup_state) =
     Some Fill_all_boxes \<and>
   error (initializeProject thirty_seconds ''a'' [] (Some ()) ''k'' setup_state) \<noteq>
     Some (Mismatch 1 0)"
  by (simp add: initializeProject_def trim_def isWhiteSpace_def)

end
